theory Spec2Isabelle
  imports Main "HOL-Library.Sublist"
begin

section \<open>Workflow Dispatch Action: the main task of \<open>src/main.ts\<close>\<close>

text \<open>
  The action is one asynchronous routine, \<open>run\<close>. It reads its inputs, lists the
  workflows of a repository, locates one of them, dispatches it, waits for the run to
  start (at most 30 attempts) and then waits for the run to complete (no bound).

  The model is a shallow embedding with explicit effects. Everything the routine
  asks of its surroundings (the action's inputs, the ambient context, the GitHub
  client, the clock, the JSON and date parsers of the language) is a field of the
  record \<open>env\<close>; everything it does to its surroundings (API calls, sleeps, log
  lines, outputs, the failure state) is appended to a trace of events. A thrown
  \<open>Error\<close> is the left injection of a sum, carrying the error's message.

  Strings are byte lists holding the UTF-8 encoding of the source's strings;
  equality, prefix, suffix and substring tests on well-formed text agree with the
  source's tests on UTF-16 code units.
\<close>

subsection \<open>The string operations of the language that \<open>run\<close> uses\<close>

text \<open>\<open>s.endsWith(t)\<close>.\<close>

definition endsWith :: "string \<Rightarrow> string \<Rightarrow> bool" where
  "endsWith s t = (length t \<le> length s \<and> drop (length s - length t) s = t)"

text \<open>\<open>s.startsWith(t)\<close>, used by \<open>String_replace\<close> to test for a match at a position.\<close>

fun startsWith :: "string \<Rightarrow> string \<Rightarrow> bool" where
  "startsWith s [] = True"
| "startsWith [] (c # t) = False"
| "startsWith (d # s) (c # t) = (d = c \<and> startsWith s t)"

text \<open>
  \<open>s.replace(pat, rep)\<close> for a string pattern: the first occurrence of \<open>pat\<close>,
  searched from the left at every position, is replaced; a string without an
  occurrence is returned as it is. (The replacement patterns written with a dollar
  sign play no role: the only replacement \<open>run\<close> passes is the empty string.)
\<close>

fun String_replace :: "string \<Rightarrow> string \<Rightarrow> string \<Rightarrow> string" where
  "String_replace pat rep [] = (if pat = [] then rep else [])"
| "String_replace pat rep (c # s) =
     (if startsWith (c # s) pat then rep @ drop (length pat) (c # s)
      else c # String_replace pat rep s)"

text \<open>\<open>s.split(sep)\<close> for a separator of one character; the result is never empty.\<close>

fun String_split :: "char \<Rightarrow> string \<Rightarrow> string list" where
  "String_split sep [] = [[]]"
| "String_split sep (c # s) =
     (if c = sep then [] # String_split sep s
      else (case String_split sep s of
              [] \<Rightarrow> [[c]]
            | x # xs \<Rightarrow> (c # x) # xs))"

text \<open>
  \<open>n.toString()\<close> for an integer \<open>n\<close>: the decimal digits, with a minus sign for a
  negative number. (Identifiers of the API are integers far below the size at which
  the language switches to exponent notation.)
\<close>

definition digit_char :: "nat \<Rightarrow> char" where
  "digit_char d = ''0123456789'' ! (d mod 10)"

fun digits :: "nat \<Rightarrow> string" where
  "digits n = (if n < 10 then [digit_char n] else digits (n div 10) @ [digit_char (n mod 10)])"

definition Number_toString :: "int \<Rightarrow> string" where
  "Number_toString n = (if n < 0 then CHR ''-'' # digits (nat (- n)) else digits (nat n))"

text \<open>
  A value that may be \<open>undefined\<close> (an array element read beyond the array's end) is
  an option; inside a template literal \<open>undefined\<close> is rendered as the word itself.
\<close>

fun template :: "string option \<Rightarrow> string" where
  "template (Some s) = s"
| "template None = ''undefined''"

text \<open>\<open>xs[i]\<close>: \<open>undefined\<close> beyond the end of the array.\<close>

fun element :: "'a list \<Rightarrow> nat \<Rightarrow> 'a option" where
  "element [] i = None"
| "element (x # xs) 0 = Some x"
| "element (x # xs) (Suc i) = element xs i"

subsection \<open>Data\<close>

text \<open>\<open>type Workflow = {id: number, name: string, path: string}\<close>\<close>

record Workflow =
  workflow_id :: int
  workflow_name :: string
  workflow_path :: string

text \<open>The fields of a workflow run that \<open>run\<close> reads; \<open>conclusion\<close> may be \<open>null\<close>.\<close>

record Run =
  run_id :: int
  run_status :: string
  run_conclusion :: "string option"
  run_created_at :: string

text \<open>
  A JSON value, as \<open>JSON.parse\<close> returns it. \<open>run\<close> never looks inside; a number is
  kept as mantissa and decimal exponent.
\<close>

datatype json =
    JNull
  | JBool bool
  | JNumber int int
  | JString string
  | JArray "json list"
  | JObject "(string \<times> json) list"

text \<open>The values \<open>run\<close> passes to \<open>core.setOutput\<close>.\<close>

datatype outval = VNumber int | VString string | VNull

fun nullable :: "string option \<Rightarrow> outval" where
  "nullable (Some s) = VString s"
| "nullable None = VNull"

text \<open>
  The observable events of one invocation, in the order of their occurrence: log
  lines, the outputs, the failure state, the calls of the GitHub API with their
  arguments, and the pauses (in milliseconds).
\<close>

datatype event =
    Info string
  | Debug string
  | ConsoleLog string
  | Warning string
  | SetFailed string
  | SetOutput string outval
  | ListRepoWorkflows "string option" "string option"
  | Request string string json
  | ListWorkflowRuns "string option" "string option" int string nat
  | Sleep nat
  | GetWorkflowRun "string option" "string option" int

text \<open>The calls that leave the machine.\<close>

fun is_api_call :: "event \<Rightarrow> bool" where
  "is_api_call (ListRepoWorkflows owner repo) = True"
| "is_api_call (Request route ref inputs) = True"
| "is_api_call (ListWorkflowRuns owner repo wid branch per_page) = True"
| "is_api_call (GetWorkflowRun owner repo rid) = True"
| "is_api_call e = False"

fun is_GetWorkflowRun :: "event \<Rightarrow> bool" where
  "is_GetWorkflowRun (GetWorkflowRun owner repo rid) = True"
| "is_GetWorkflowRun e = False"

text \<open>The outputs set along a trace, in order.\<close>

fun outputs :: "event list \<Rightarrow> (string \<times> outval) list" where
  "outputs [] = []"
| "outputs (SetOutput name v # es) = (name, v) # outputs es"
| "outputs (e # es) = outputs es"

text \<open>
  What the routine is given. The five inputs are what \<open>core.getInput\<close> returns (the
  empty string for an input that is not set). \<open>JSON_parse\<close>, \<open>getOctokit\<close> and the
  four API calls may throw: \<open>Inl\<close> (for \<open>getOctokit\<close>: \<open>Some\<close>) carries the message
  of the error. The answers of \<open>listWorkflowRuns\<close> and of the clock change with
  time: both take the number of the attempt first (the number of earlier calls of
  \<open>listWorkflowRuns\<close>), and \<open>getWorkflowRun\<close> takes the number of its earlier
  calls. \<open>Date_parse\<close> is the time value of \<open>new Date(s)\<close> in milliseconds, \<open>None\<close>
  for an invalid date; \<open>version\<close> is the version field of \<open>package.json\<close>.
\<close>

record env =
  input_workflow :: string
  input_token :: string
  input_ref :: string
  input_repo :: string
  input_inputs :: string
  context_ref :: string
  context_owner :: string
  context_repo :: string
  version :: string
  JSON_parse :: "string \<Rightarrow> string + json"
  JSON_stringify :: "Workflow list \<Rightarrow> string"
  getOctokit :: "string \<Rightarrow> string option"
  listRepoWorkflows :: "string option \<Rightarrow> string option \<Rightarrow> string + Workflow list"
  request :: "string \<Rightarrow> string \<Rightarrow> json \<Rightarrow> string + int"
  listWorkflowRuns ::
    "nat \<Rightarrow> string option \<Rightarrow> string option \<Rightarrow> int \<Rightarrow> string \<Rightarrow> nat \<Rightarrow> string + Run list"
  Date_now :: "nat \<Rightarrow> int"
  Date_parse :: "string \<Rightarrow> int option"
  getWorkflowRun :: "nat \<Rightarrow> string option \<Rightarrow> string option \<Rightarrow> int \<Rightarrow> string + Run"

text \<open>The exit state of an invocation: \<open>core.setFailed\<close> makes it a failure.\<close>

datatype outcome = Success | Failure string

subsection \<open>The routine \<open>run\<close>\<close>

text \<open>The pictographs of the log lines, in UTF-8.\<close>

definition runner :: string where
  "runner = [CHR 0xF0, CHR 0x9F, CHR 0x8F, CHR 0x83]"

definition sad :: string where
  "sad = [CHR 0xF0, CHR 0x9F, CHR 0x98, CHR 0xA5]"

definition magnifier :: string where
  "magnifier = [CHR 0xF0, CHR 0x9F, CHR 0x94, CHR 0x8E]"

definition rocket :: string where
  "rocket = [CHR 0xF0, CHR 0x9F, CHR 0x9A, CHR 0x80]"

definition trophy :: string where
  "trophy = [CHR 0xF0, CHR 0x9F, CHR 0x8F, CHR 0x86]"

definition hourglass :: string where
  "hourglass = [CHR 0xE2, CHR 0x8C, CHR 0x9B]"

definition clipboard :: string where
  "clipboard = [CHR 0xF0, CHR 0x9F, CHR 0x93, CHR 0x8B]"

definition sandglass :: string where
  "sandglass = [CHR 0xE2, CHR 0x8F, CHR 0xB3]"

definition sparkles :: string where
  "sparkles = [CHR 0xE2, CHR 0x9C, CHR 0xA8]"

text \<open>\<open>null\<close> inside a template literal.\<close>

fun template_null :: "string option \<Rightarrow> string" where
  "template_null (Some s) = s"
| "template_null None = ''null''"

text \<open>Lines 25 to 39: the inputs and their defaults.\<close>

definition resolve_ref :: "env \<Rightarrow> string" where
  "resolve_ref env = (if input_ref env \<noteq> [] then input_ref env else context_ref env)"

definition resolve_owner_repo :: "env \<Rightarrow> string option \<times> string option" where
  "resolve_owner_repo env =
     (if input_repo env \<noteq> [] then
        (let parts = String_split CHR ''/'' (input_repo env)
         in (element parts 0, element parts 1))
      else (Some (context_owner env), Some (context_repo env)))"

definition decode_inputs :: "env \<Rightarrow> string + json" where
  "decode_inputs env =
     (if input_inputs env \<noteq> [] then JSON_parse env (input_inputs env) else Inr (JObject []))"

text \<open>Lines 58 to 65: the workflow is located by name, id or file name.\<close>

definition matches :: "string \<Rightarrow> Workflow \<Rightarrow> bool" where
  "matches workflowRef workflow =
     (workflow_name workflow = workflowRef \<or>
      Number_toString (workflow_id workflow) = workflowRef \<or>
      endsWith (workflow_path workflow) (''/'' @ workflowRef) \<or>
      workflow_path workflow = workflowRef)"

definition foundWorkflow :: "string \<Rightarrow> Workflow list \<Rightarrow> Workflow option" where
  "foundWorkflow workflowRef workflows = List.find (matches workflowRef) workflows"

text \<open>Line 67: the message of the error thrown when no workflow is found.\<close>

definition not_found :: "string \<Rightarrow> string option \<Rightarrow> string option \<Rightarrow> string" where
  "not_found workflowRef owner repo =
     ''Unable to find workflow '' @ [CHR 0x27] @ workflowRef @ [CHR 0x27] @ '' in '' @
     template owner @ ''/'' @ template repo @ '' '' @ sad"

text \<open>Lines 58 to 67: the workflow found, or the error thrown.\<close>

definition locate ::
  "string \<Rightarrow> string option \<Rightarrow> string option \<Rightarrow> Workflow list \<Rightarrow> string + Workflow" where
  "locate workflowRef owner repo workflows =
     (case foundWorkflow workflowRef workflows of
        None \<Rightarrow> Inl (not_found workflowRef owner repo)
      | Some found \<Rightarrow> Inr found)"

text \<open>What the later phases keep of the first one.\<close>

record dispatched =
  the_owner :: "string option"
  the_repo :: "string option"
  the_ref :: string
  the_workflow :: Workflow

text \<open>Line 22: the first log line, written before the guarded region is entered.\<close>

definition banner :: "env \<Rightarrow> event" where
  "banner env = Info (runner @ '' Workflow Dispatch Action v'' @ version env)"

text \<open>Line 74: the route of the dispatch request.\<close>

definition route :: "string option \<Rightarrow> string option \<Rightarrow> Workflow \<Rightarrow> string" where
  "route owner repo found =
     ''POST /repos/'' @ template owner @ ''/'' @ template repo @ ''/actions/workflows/'' @
     Number_toString (workflow_id found) @ ''/dispatches''"

text \<open>
  Lines 22 to 82: from the first log line to the output \<open>workflowId\<close>. The result is
  the error thrown on the way, or the resolved values, with the trace so far.
\<close>

definition dispatch_phase :: "env \<Rightarrow> (string + dispatched) \<times> event list" where
  "dispatch_phase env =
     (let tr0 = [banner env];
          workflowRef = input_workflow env;
          token = input_token env;
          ref = resolve_ref env;
          (owner, repo) = resolve_owner_repo env
      in case decode_inputs env of
           Inl e \<Rightarrow> (Inl e, tr0)
         | Inr inputs \<Rightarrow>
       (case getOctokit env token of
           Some e \<Rightarrow> (Inl e, tr0)
         | None \<Rightarrow>
       (case listRepoWorkflows env owner repo of
           Inl e \<Rightarrow> (Inl e, tr0 @ [ListRepoWorkflows owner repo])
         | Inr workflows \<Rightarrow>
       (let tr1 = tr0 @
              [ListRepoWorkflows owner repo,
               Debug ''### START List Workflows response data'',
               Debug (JSON_stringify env workflows),
               Debug ''### END:  List Workflows response data'']
        in case locate workflowRef owner repo workflows of
           Inl e \<Rightarrow> (Inl e, tr1)
         | Inr found \<Rightarrow>
       (let tr2 = tr1 @
              [ConsoleLog (magnifier @ '' Found workflow, id: '' @
                 Number_toString (workflow_id found) @ '', name: '' @ workflow_name found @
                 '', path: '' @ workflow_path found),
               ConsoleLog (rocket @ '' Calling GitHub API to dispatch workflow...''),
               Request (route owner repo found) ref inputs]
        in case request env (route owner repo found) ref inputs of
           Inl e \<Rightarrow> (Inl e, tr2)
         | Inr status \<Rightarrow>
             (Inr \<lparr>the_owner = owner, the_repo = repo, the_ref = ref, the_workflow = found\<rparr>,
              tr2 @
              [Info (trophy @ '' API response status: '' @ Number_toString status),
               SetOutput ''workflowId'' (VNumber (workflow_id found))]))))))"

text \<open>Lines 86 to 107: waiting for the run to start.\<close>

definition maxAttempts :: nat where
  "maxAttempts = 30"

text \<open>
  Line 100: \<open>new Date(latestRun.created_at) > new Date(Date.now() - 60000)\<close>. A
  comparison with an invalid date is false.
\<close>

definition recent :: "env \<Rightarrow> nat \<Rightarrow> Run \<Rightarrow> bool" where
  "recent env attempts latestRun =
     (case Date_parse env (run_created_at latestRun) of
        None \<Rightarrow> False
      | Some created \<Rightarrow> created > Date_now env attempts - 60000)"

text \<open>The condition of line 100 on the list returned: its first element is recent.\<close>

definition eligible :: "env \<Rightarrow> nat \<Rightarrow> Run list \<Rightarrow> bool" where
  "eligible env attempts workflow_runs =
     (case element workflow_runs 0 of
        None \<Rightarrow> False
      | Some latestRun \<Rightarrow> recent env attempts latestRun)"

text \<open>Line 102: the log line of the run found.\<close>

definition started :: "Run \<Rightarrow> event" where
  "started workflowRun =
     ConsoleLog (clipboard @ '' Workflow run started with ID: '' @
       Number_toString (run_id workflowRun))"

text \<open>Lines 91 to 97: the call of one attempt, with the branch of line 95.\<close>

definition branch :: "string \<Rightarrow> string" where
  "branch ref = String_replace ''refs/heads/'' [] ref"

definition attempt_call :: "string option \<Rightarrow> string option \<Rightarrow> int \<Rightarrow> string \<Rightarrow> event" where
  "attempt_call owner repo wid ref = ListWorkflowRuns owner repo wid (branch ref) 1"

text \<open>
  The loop of line 90, entered with \<open>workflowRun = null\<close>; it is left with the run
  found (\<open>Some\<close>), or with \<open>null\<close> (\<open>None\<close>) after the last attempt, or by an error of
  the API call.
\<close>

function waitForStart ::
  "env \<Rightarrow> string option \<Rightarrow> string option \<Rightarrow> int \<Rightarrow> string \<Rightarrow> nat \<Rightarrow> event list
   \<Rightarrow> (string + Run option) \<times> event list" where
  "waitForStart env owner repo wid ref attempts tr =
     (if attempts < maxAttempts then
        (let tr' = tr @ [attempt_call owner repo wid ref]
         in case listWorkflowRuns env attempts owner repo wid (branch ref) 1 of
              Inl e \<Rightarrow> (Inl e, tr')
            | Inr workflow_runs \<Rightarrow>
                (case element workflow_runs 0 of
                   None \<Rightarrow>
                     waitForStart env owner repo wid ref (Suc attempts) (tr' @ [Sleep 2000])
                 | Some latestRun \<Rightarrow>
                     if recent env attempts latestRun then
                       (Inr (Some latestRun), tr' @ [started latestRun])
                     else
                       waitForStart env owner repo wid ref (Suc attempts) (tr' @ [Sleep 2000])))
      else (Inr None, tr))"
  by pat_completeness auto
termination
  by (relation "measure (\<lambda>(env, owner, repo, wid, ref, attempts, tr). maxAttempts - attempts)")
    auto

declare waitForStart.simps [simp del]

text \<open>
  Lines 115 to 126: waiting for the run to complete. The loop has no bound: where
  it runs forever the value is \<open>None\<close>.
\<close>

partial_function (option) waitForCompletion ::
  "env \<Rightarrow> string option \<Rightarrow> string option \<Rightarrow> nat \<Rightarrow> Run \<Rightarrow> event list
   \<Rightarrow> ((string + Run) \<times> event list) option" where
  "waitForCompletion env owner repo calls workflowRun tr =
     (if run_status workflowRun \<noteq> ''completed'' then
        (let tr' = tr @ [GetWorkflowRun owner repo (run_id workflowRun)]
         in case getWorkflowRun env calls owner repo (run_id workflowRun) of
              Inl e \<Rightarrow> Some (Inl e, tr')
            | Inr data \<Rightarrow>
                waitForCompletion env owner repo (Suc calls) data
                  (if run_status data \<noteq> ''completed'' then tr' @ [Sleep 5000] else tr'))
      else Some (Inr workflowRun, tr))"

declare waitForCompletion.simps [code]

text \<open>
  What one pass through the loop adds to the trace: the call of line 116, made with
  the id \<open>rid\<close>, and the pause of line 124 when the answer \<open>data\<close> is not completed.
\<close>

definition fetch :: "string option \<Rightarrow> string option \<Rightarrow> int \<Rightarrow> Run \<Rightarrow> event list" where
  "fetch owner repo rid data =
     GetWorkflowRun owner repo rid #
     (if run_status data \<noteq> ''completed'' then [Sleep 5000] else [])"

text \<open>Lines 85, 110 and 114: two log lines and the message of the timeout.\<close>

definition waiting_to_start :: event where
  "waiting_to_start = ConsoleLog (hourglass @ '' Waiting for workflow run to start...'')"

definition timed_out :: string where
  "timed_out = ''Timed out waiting for workflow run to start''"

definition waiting_to_complete :: event where
  "waiting_to_complete = ConsoleLog (sandglass @ '' Waiting for workflow run to complete...'')"

text \<open>Lines 129 to 132: the three outputs of the run and the last log line.\<close>

definition report :: "Run \<Rightarrow> event list" where
  "report workflowRun =
     [SetOutput ''workflow_run_id'' (VNumber (run_id workflowRun)),
      SetOutput ''workflow_run_status'' (VString (run_status workflowRun)),
      SetOutput ''workflow_run_conclusion'' (nullable (run_conclusion workflowRun)),
      ConsoleLog (sparkles @ '' Workflow run completed with conclusion: '' @
        template_null (run_conclusion workflowRun))]"

text \<open>Lines 23 to 133: the guarded region.\<close>

definition run_try :: "env \<Rightarrow> ((string + unit) \<times> event list) option" where
  "run_try env =
     (case dispatch_phase env of
        (Inl e, tr) \<Rightarrow> Some (Inl e, tr)
      | (Inr d, tr) \<Rightarrow>
     (case waitForStart env (the_owner d) (the_repo d) (workflow_id (the_workflow d)) (the_ref d) 0
             (tr @ [waiting_to_start]) of
        (Inl e, tr) \<Rightarrow> Some (Inl e, tr)
      | (Inr None, tr) \<Rightarrow> Some (Inl timed_out, tr)
      | (Inr (Some workflowRun), tr) \<Rightarrow>
     (case waitForCompletion env (the_owner d) (the_repo d) 0 workflowRun
             (tr @ [waiting_to_complete]) of
        None \<Rightarrow> None
      | Some (Inl e, tr) \<Rightarrow> Some (Inl e, tr)
      | Some (Inr workflowRun, tr) \<Rightarrow>
          Some (Inr (), tr @ report workflowRun))))"

text \<open>Lines 134 to 143: the handler of the guarded region.\<close>

definition disabled :: string where
  "disabled = ''a disabled workflow''"

definition handler :: "string \<Rightarrow> outcome \<times> event list" where
  "handler message =
     (if endsWith message disabled then
        (Success, [Warning ''Workflow is disabled, no action was taken''])
      else (Failure message, [SetFailed message]))"

text \<open>
  Lines 21 to 144: the whole routine. The result is \<open>None\<close> where the routine never
  returns.
\<close>

definition run :: "env \<Rightarrow> (outcome \<times> event list) option" where
  "run env =
     (case run_try env of
        None \<Rightarrow> None
      | Some (Inr u, tr) \<Rightarrow> Some (Success, tr)
      | Some (Inl message, tr) \<Rightarrow>
          (case handler message of (result, logged) \<Rightarrow> Some (result, tr @ logged)))"

subsection \<open>Names for parts of the trace\<close>

text \<open>The trace up to the dispatch request, when a workflow has been found.\<close>

definition until_request ::
  "env \<Rightarrow> string option \<Rightarrow> string option \<Rightarrow> Workflow list \<Rightarrow> Workflow \<Rightarrow> json \<Rightarrow> event list" where
  "until_request env owner repo workflows found inputs =
     [banner env,
      ListRepoWorkflows owner repo,
      Debug ''### START List Workflows response data'',
      Debug (JSON_stringify env workflows),
      Debug ''### END:  List Workflows response data'',
      ConsoleLog (magnifier @ '' Found workflow, id: '' @
        Number_toString (workflow_id found) @ '', name: '' @ workflow_name found @
        '', path: '' @ workflow_path found),
      ConsoleLog (rocket @ '' Calling GitHub API to dispatch workflow...''),
      Request (route owner repo found) (resolve_ref env) inputs]"

definition dispatch_ok :: "int \<Rightarrow> Workflow \<Rightarrow> event list" where
  "dispatch_ok status found =
     [Info (trophy @ '' API response status: '' @ Number_toString status),
      SetOutput ''workflowId'' (VNumber (workflow_id found))]"

subsection \<open>The locator's predicate in the words of the specification\<close>

text \<open>
  A workflow matches an identifier when its name equals the identifier, or its id
  rendered as a string equals it, or its path ends with a slash followed by the
  identifier, or its path equals the identifier.
\<close>

definition spec_matches :: "string \<Rightarrow> Workflow \<Rightarrow> bool" where
  "spec_matches identifier w =
     (workflow_name w = identifier \<or>
      Number_toString (workflow_id w) = identifier \<or>
      suffix (CHR ''/'' # identifier) (workflow_path w) \<or>
      workflow_path w = identifier)"

subsection \<open>An example invocation\<close>

text \<open>
  A repository \<open>octo/demo\<close> with three workflows. The dispatched run is not listed at
  the first attempt; the second attempt still returns last hour's run; the third
  returns the new run, queued. The first fetch of the run finds it in progress, the
  second finds it completed.
\<close>

definition ci :: Workflow where
  "ci = \<lparr>workflow_id = 41, workflow_name = ''CI'',
          workflow_path = ''.github/workflows/ci.yml''\<rparr>"

definition deploy :: Workflow where
  "deploy = \<lparr>workflow_id = 42, workflow_name = ''Deploy'',
              workflow_path = ''.github/workflows/deploy.yml''\<rparr>"

definition nightly :: Workflow where
  "nightly = \<lparr>workflow_id = 43, workflow_name = ''deploy.yml'',
               workflow_path = ''.github/workflows/nightly.yml''\<rparr>"

definition stale :: Run where
  "stale = \<lparr>run_id = 900, run_status = ''completed'', run_conclusion = Some ''failure'',
             run_created_at = ''2023-12-31T23:00:00Z''\<rparr>"

definition queued :: Run where
  "queued = \<lparr>run_id = 901, run_status = ''queued'', run_conclusion = None,
              run_created_at = ''2024-01-01T00:00:03Z''\<rparr>"

definition in_progress :: Run where
  "in_progress = queued\<lparr>run_status := ''in_progress''\<rparr>"

definition completed :: Run where
  "completed = queued\<lparr>run_status := ''completed'', run_conclusion := Some ''success''\<rparr>"

text \<open>The text \<open>{"x":1}\<close> and its value.\<close>

definition x1 :: string where
  "x1 = ''{'' @ [CHR 0x22] @ ''x'' @ [CHR 0x22] @ '':1}''"

definition x1_value :: json where
  "x1_value = JObject [(''x'', JNumber 1 0)]"

text \<open>
  The parsers of the example know the texts of the example only: every other text
  is a syntax error, or an invalid date.
\<close>

definition demo_parse :: "string \<Rightarrow> string + json" where
  "demo_parse s =
     (if s = x1 then Inr x1_value else Inl ''Unexpected token b in JSON at position 1'')"

definition demo_date :: "string \<Rightarrow> int option" where
  "demo_date s =
     (if s = ''2023-12-31T23:00:00Z'' then Some 1704063600000
      else if s = ''2024-01-01T00:00:03Z'' then Some 1704067203000
      else None)"

definition demo :: env where
  "demo =
     \<lparr>input_workflow = ''deploy.yml'',
      input_token = ''secret'',
      input_ref = [],
      input_repo = ''octo/demo'',
      input_inputs = x1,
      context_ref = ''refs/heads/main'',
      context_owner = ''octo'',
      context_repo = ''caller'',
      version = ''1.2.4'',
      JSON_parse = demo_parse,
      JSON_stringify = (\<lambda>workflows. ''[...]''),
      getOctokit = (\<lambda>token. if token = [] then Some ''Parameter token or opts.auth is required''
                             else None),
      listRepoWorkflows = (\<lambda>owner repo. Inr [ci, deploy, nightly]),
      request = (\<lambda>route ref inputs. Inr 204),
      listWorkflowRuns = (\<lambda>attempts owner repo wid branch per_page.
         Inr (if attempts = 0 then [] else if attempts = 1 then [stale] else [queued])),
      Date_now = (\<lambda>attempts. 1704067204000 + 2000 * int attempts),
      Date_parse = demo_date,
      getWorkflowRun = (\<lambda>calls owner repo rid.
         Inr (if calls = 0 then in_progress else completed))\<rparr>"

text \<open>Variations of the example.\<close>

definition demo_without_slash :: env where
  "demo_without_slash = demo\<lparr>input_repo := ''octo''\<rparr>"

definition demo_bad_json :: env where
  "demo_bad_json = demo\<lparr>input_inputs := ''{bad json''\<rparr>"

definition demo_release :: env where
  "demo_release = demo\<lparr>input_ref := ''release/refs/heads/v1''\<rparr>"

definition demo_never_starts :: env where
  "demo_never_starts =
     demo\<lparr>listWorkflowRuns := (\<lambda>attempts owner repo wid branch per_page.
       Inr (if attempts = 0 then [] else [stale]))\<rparr>"

definition demo_disabled_late :: env where
  "demo_disabled_late =
     demo\<lparr>listWorkflowRuns := (\<lambda>attempts owner repo wid branch per_page.
       Inl ''Cannot list the runs of a disabled workflow'')\<rparr>"

definition demo_finished :: env where
  "demo_finished =
     demo\<lparr>listWorkflowRuns := (\<lambda>attempts owner repo wid branch per_page. Inr [completed]),
          getWorkflowRun := (\<lambda>calls owner repo rid. Inl ''Not Found'')\<rparr>"

text \<open>
  The example with an API that answers the fetch of a run with snapshots of
  another run, 777.
\<close>

definition demo_other_run :: env where
  "demo_other_run =
     demo\<lparr>getWorkflowRun := (\<lambda>calls owner repo rid.
       Inr (if calls = 0 then in_progress\<lparr>run_id := 777\<rparr> else completed\<lparr>run_id := 777\<rparr>))\<rparr>"

text \<open>The snapshots of the run in the example, in the order in which they are held.\<close>

definition demo_snapshots :: "nat \<Rightarrow> Run" where
  "demo_snapshots j = (if j = 0 then queued else if j = 1 then in_progress else completed)"

section \<open>Properties\<close>

subsection \<open>The string operations\<close>

lemma endsWith_suffix: "endsWith s t \<longleftrightarrow> suffix t s"
proof
  assume "endsWith s t"
  then have "drop (length s - length t) s = t"
    by (simp add: endsWith_def)
  then have "s = take (length s - length t) s @ t"
    by (metis append_take_drop_id)
  then show "suffix t s"
    unfolding suffix_def by blast
next
  assume "suffix t s"
  then obtain zs where "s = zs @ t"
    unfolding suffix_def by blast
  then show "endsWith s t"
    by (simp add: endsWith_def)
qed

lemma startsWith_prefix: "startsWith s t \<longleftrightarrow> prefix t s"
  by (induction s t rule: startsWith.induct) auto

lemma String_replace_prefix: "String_replace pat [] (pat @ s) = s"
proof (cases "pat @ s")
  case Nil
  then show ?thesis by simp
next
  case (Cons c cs)
  have "startsWith (pat @ s) pat"
    by (simp add: startsWith_prefix)
  with Cons have "String_replace pat [] (pat @ s) = drop (length pat) (pat @ s)"
    by simp
  then show ?thesis by simp
qed

lemma String_replace_absent: "\<not> sublist pat s \<Longrightarrow> String_replace pat rep s = s"
proof (induction s)
  case Nil
  then show ?case by auto
next
  case (Cons c s)
  from Cons.prems have "\<not> prefix pat (c # s)"
    using prefix_imp_sublist by blast
  moreover from Cons.prems have "\<not> sublist pat s"
    by (auto simp: sublist_Cons_right)
  ultimately show ?case
    using Cons.IH by (simp add: startsWith_prefix)
qed

lemma String_split_whole: "sep \<notin> set s \<Longrightarrow> String_split sep s = [s]"
  by (induction s) auto

subsection \<open>From the inputs to the dispatch\<close>

lemma resolve_without_slash:
  assumes "input_repo env \<noteq> []" and "CHR ''/'' \<notin> set (input_repo env)"
  shows "resolve_owner_repo env = (Some (input_repo env), None)"
  using assms by (simp add: resolve_owner_repo_def String_split_whole)

lemma dispatch_phase_decode_error:
  assumes "decode_inputs env = Inl e"
  shows "dispatch_phase env = (Inl e, [banner env])"
  using assms by (simp add: dispatch_phase_def Let_def split: prod.splits)

lemma dispatch_phase_found:
  assumes "resolve_owner_repo env = (owner, repo)"
    and "decode_inputs env = Inr inputs"
    and "getOctokit env (input_token env) = None"
    and "listRepoWorkflows env owner repo = Inr workflows"
    and "locate (input_workflow env) owner repo workflows = Inr found"
  shows "dispatch_phase env =
     (case request env (route owner repo found) (resolve_ref env) inputs of
        Inl e \<Rightarrow> (Inl e, until_request env owner repo workflows found inputs)
      | Inr status \<Rightarrow>
          (Inr \<lparr>the_owner = owner, the_repo = repo, the_ref = resolve_ref env,
                the_workflow = found\<rparr>,
           until_request env owner repo workflows found inputs @ dispatch_ok status found))"
  using assms
  by (simp add: dispatch_phase_def Let_def until_request_def dispatch_ok_def split: sum.splits)

lemma dispatch_phase_listing:
  assumes "resolve_owner_repo env = (owner, repo)"
    and "decode_inputs env = Inr inputs"
    and "getOctokit env (input_token env) = None"
  shows "\<exists>res rest. dispatch_phase env = (res, banner env # ListRepoWorkflows owner repo # rest)"
  using assms
  by (simp add: dispatch_phase_def Let_def split: sum.splits)

text \<open>Every way through the first phase.\<close>

lemma dispatch_phase_cases:
  obtains
    (decode) e where "decode_inputs env = Inl e" "dispatch_phase env = (Inl e, [banner env])"
  | (client) e where "dispatch_phase env = (Inl e, [banner env])"
  | (listing) e owner repo where
      "dispatch_phase env = (Inl e, [banner env, ListRepoWorkflows owner repo])"
  | (locating) e owner repo workflows where
      "dispatch_phase env =
        (Inl e,
         [banner env, ListRepoWorkflows owner repo,
          Debug ''### START List Workflows response data'',
          Debug (JSON_stringify env workflows),
          Debug ''### END:  List Workflows response data''])"
  | (refused) e owner repo workflows found inputs where
      "decode_inputs env = Inr inputs"
      "dispatch_phase env = (Inl e, until_request env owner repo workflows found inputs)"
  | (dispatched) owner repo workflows found inputs status where
      "decode_inputs env = Inr inputs"
      "dispatch_phase env =
        (Inr \<lparr>the_owner = owner, the_repo = repo, the_ref = resolve_ref env,
              the_workflow = found\<rparr>,
         until_request env owner repo workflows found inputs @ dispatch_ok status found)"
proof -
  obtain owner repo where r: "resolve_owner_repo env = (owner, repo)"
    by (cases "resolve_owner_repo env")
  show ?thesis
  proof (cases "decode_inputs env")
    case (Inl e)
    with decode show ?thesis
      by (simp add: dispatch_phase_decode_error)
  next
    case inputs: (Inr inputs)
    show ?thesis
    proof (cases "getOctokit env (input_token env)")
      case (Some e)
      with r inputs client show ?thesis
        by (simp add: dispatch_phase_def Let_def)
    next
      case None
      note octokit = this
      show ?thesis
      proof (cases "listRepoWorkflows env owner repo")
        case (Inl e)
        with r inputs octokit listing show ?thesis
          by (simp add: dispatch_phase_def Let_def)
      next
        case workflows: (Inr workflows)
        show ?thesis
        proof (cases "locate (input_workflow env) owner repo workflows")
          case (Inl e)
          with r inputs octokit workflows locating show ?thesis
            by (simp add: dispatch_phase_def Let_def)
        next
          case (Inr found)
          note d = dispatch_phase_found [OF r inputs octokit workflows Inr]
          show ?thesis
          proof (cases "request env (route owner repo found) (resolve_ref env) inputs")
            case (Inl e)
            with d inputs refused show ?thesis by simp
          next
            case (Inr status)
            with d inputs dispatched show ?thesis by simp
          qed
        qed
      qed
    qed
  qed
qed

lemma decode_inputs_present:
  "input_inputs env \<noteq> [] \<Longrightarrow> decode_inputs env = JSON_parse env (input_inputs env)"
  by (simp add: decode_inputs_def)

lemma dispatch_phase_Inr_shape:
  assumes "dispatch_phase env = (Inr d, t)"
  shows "\<exists>pre inputs status.
     decode_inputs env = Inr inputs \<and>
     t = pre @
       [Request (route (the_owner d) (the_repo d) (the_workflow d)) (resolve_ref env) inputs,
        Info (trophy @ '' API response status: '' @ Number_toString status),
        SetOutput ''workflowId'' (VNumber (workflow_id (the_workflow d)))] \<and>
     outputs pre = []"
proof (cases env rule: dispatch_phase_cases)
  case (dispatched owner repo workflows found inputs status)
  let ?pre = "butlast (until_request env owner repo workflows found inputs)"
  from dispatched assms have "decode_inputs env = Inr inputs \<and>
     t = ?pre @
       [Request (route (the_owner d) (the_repo d) (the_workflow d)) (resolve_ref env) inputs,
        Info (trophy @ '' API response status: '' @ Number_toString status),
        SetOutput ''workflowId'' (VNumber (workflow_id (the_workflow d)))] \<and>
     outputs ?pre = []"
    by (auto simp: until_request_def dispatch_ok_def banner_def)
  then show ?thesis by blast
qed (use assms in simp_all)

lemma dispatch_phase_requests:
  assumes "decode_inputs env = Inr inputs"
    and "Request r ref payload \<in> set (snd (dispatch_phase env))"
  shows "payload = inputs"
proof (cases env rule: dispatch_phase_cases)
  case (refused e owner repo workflows found inputs')
  with assms show ?thesis
    by (auto simp: until_request_def banner_def)
next
  case (dispatched owner repo workflows found inputs' status)
  with assms show ?thesis
    by (auto simp: until_request_def dispatch_ok_def banner_def)
qed (use assms in \<open>simp_all add: banner_def\<close>)

subsection \<open>Waiting for the run to start\<close>

lemma outputs_append: "outputs (xs @ ys) = outputs xs @ outputs ys"
  by (induction xs rule: outputs.induct) simp_all

lemma outputs_attempts:
  "outputs (concat (replicate n [attempt_call owner repo wid ref, Sleep 2000])) = []"
  by (induction n) (simp_all add: attempt_call_def)

lemma waitForStart_exhausted:
  "\<not> attempts < maxAttempts \<Longrightarrow>
   waitForStart env owner repo wid ref attempts tr = (Inr None, tr)"
  by (simp add: waitForStart.simps)

lemma waitForStart_error:
  "attempts < maxAttempts \<Longrightarrow>
   listWorkflowRuns env attempts owner repo wid (branch ref) 1 = Inl e \<Longrightarrow>
   waitForStart env owner repo wid ref attempts tr =
     (Inl e, tr @ [attempt_call owner repo wid ref])"
  by (simp add: waitForStart.simps [of env owner repo wid ref attempts])

lemma waitForStart_found:
  "attempts < maxAttempts \<Longrightarrow>
   listWorkflowRuns env attempts owner repo wid (branch ref) 1 = Inr (latestRun # rest) \<Longrightarrow>
   recent env attempts latestRun \<Longrightarrow>
   waitForStart env owner repo wid ref attempts tr =
     (Inr (Some latestRun), tr @ [attempt_call owner repo wid ref, started latestRun])"
  by (simp add: waitForStart.simps [of env owner repo wid ref attempts])

lemma waitForStart_retry:
  "attempts < maxAttempts \<Longrightarrow>
   listWorkflowRuns env attempts owner repo wid (branch ref) 1 = Inr workflow_runs \<Longrightarrow>
   \<not> eligible env attempts workflow_runs \<Longrightarrow>
   waitForStart env owner repo wid ref attempts tr =
     waitForStart env owner repo wid ref (Suc attempts)
       (tr @ [attempt_call owner repo wid ref, Sleep 2000])"
  by (simp add: waitForStart.simps [of env owner repo wid ref attempts] eligible_def
      split: option.splits)

lemma eligible_Cons: "eligible env attempts (r # rest) = recent env attempts r"
  by (simp add: eligible_def)

lemma eligible_Nil: "\<not> eligible env attempts []"
  by (simp add: eligible_def)

text \<open>Every way through the loop is one of the four above.\<close>

lemma waitForStart_cases:
  assumes "waitForStart env owner repo wid ref attempts tr = (res, tr')"
  obtains
    (exhausted) "\<not> attempts < maxAttempts" "res = Inr None" "tr' = tr"
  | (error) e where "attempts < maxAttempts"
      "listWorkflowRuns env attempts owner repo wid (branch ref) 1 = Inl e"
      "res = Inl e" "tr' = tr @ [attempt_call owner repo wid ref]"
  | (found) latestRun rest where "attempts < maxAttempts"
      "listWorkflowRuns env attempts owner repo wid (branch ref) 1 = Inr (latestRun # rest)"
      "recent env attempts latestRun"
      "res = Inr (Some latestRun)"
      "tr' = tr @ [attempt_call owner repo wid ref, started latestRun]"
  | (retry) workflow_runs where "attempts < maxAttempts"
      "listWorkflowRuns env attempts owner repo wid (branch ref) 1 = Inr workflow_runs"
      "\<not> eligible env attempts workflow_runs"
      "waitForStart env owner repo wid ref (Suc attempts)
         (tr @ [attempt_call owner repo wid ref, Sleep 2000]) = (res, tr')"
proof (cases "attempts < maxAttempts")
  case False
  with assms exhausted show ?thesis
    by (simp add: waitForStart_exhausted)
next
  case lt: True
  show ?thesis
  proof (cases "listWorkflowRuns env attempts owner repo wid (branch ref) 1")
    case (Inl e)
    with assms lt error show ?thesis
      by (simp add: waitForStart_error)
  next
    case (Inr workflow_runs)
    show ?thesis
    proof (cases "eligible env attempts workflow_runs")
      case False
      with assms lt Inr retry show ?thesis
        by (simp add: waitForStart_retry)
    next
      case True
      then obtain latestRun rest where "workflow_runs = latestRun # rest"
        by (cases workflow_runs) (simp_all add: eligible_def)
      with True assms lt Inr found show ?thesis
        by (simp add: waitForStart_found eligible_Cons)
    qed
  qed
qed

lemma waitForStart_trace:
  "waitForStart env owner repo wid ref attempts tr = (res, tr') \<Longrightarrow>
   \<exists>added. tr' = tr @ added \<and> outputs added = [] \<and> filter is_GetWorkflowRun added = []"
proof (induction "maxAttempts - attempts" arbitrary: attempts tr)
  case 0
  then show ?case
    by (simp add: waitForStart_exhausted)
next
  case (Suc n)
  from Suc.prems show ?case
  proof (cases rule: waitForStart_cases)
    case exhausted
    then show ?thesis by simp
  next
    case (error e)
    then show ?thesis by (simp add: attempt_call_def)
  next
    case (found latestRun rest)
    then show ?thesis by (simp add: attempt_call_def started_def)
  next
    case (retry workflow_runs)
    from Suc.hyps(2) have "n = maxAttempts - Suc attempts" by simp
    from Suc.hyps(1) [OF this retry(4)] obtain added where
      "tr' = (tr @ [attempt_call owner repo wid ref, Sleep 2000]) @ added"
      "outputs added = []" "filter is_GetWorkflowRun added = []"
      by blast
    then have "tr' = tr @ ([attempt_call owner repo wid ref, Sleep 2000] @ added) \<and>
       outputs ([attempt_call owner repo wid ref, Sleep 2000] @ added) = [] \<and>
       filter is_GetWorkflowRun ([attempt_call owner repo wid ref, Sleep 2000] @ added) = []"
      by (simp add: attempt_call_def)
    then show ?thesis by blast
  qed
qed

lemma waitForStart_accepts:
  "waitForStart env owner repo wid ref attempts tr = (Inr (Some workflowRun), tr') \<Longrightarrow>
   \<exists>n rest. attempts \<le> n \<and> n < maxAttempts \<and>
     listWorkflowRuns env n owner repo wid (branch ref) 1 = Inr (workflowRun # rest) \<and>
     recent env n workflowRun"
proof (induction "maxAttempts - attempts" arbitrary: attempts tr)
  case 0
  then show ?case
    by (simp add: waitForStart_exhausted)
next
  case (Suc n)
  from Suc.prems show ?case
  proof (cases rule: waitForStart_cases)
    case (found latestRun rest)
    then have "attempts \<le> attempts \<and> attempts < maxAttempts \<and>
      listWorkflowRuns env attempts owner repo wid (branch ref) 1 = Inr (workflowRun # rest) \<and>
      recent env attempts workflowRun"
      by simp
    then show ?thesis by blast
  next
    case (retry workflow_runs)
    from Suc.hyps(2) have "n = maxAttempts - Suc attempts" by simp
    from Suc.hyps(1) [OF this retry(4)] obtain m rest where
      "Suc attempts \<le> m" "m < maxAttempts"
      "listWorkflowRuns env m owner repo wid (branch ref) 1 = Inr (workflowRun # rest)"
      "recent env m workflowRun"
      by blast
    then have "attempts \<le> m \<and> m < maxAttempts \<and>
      listWorkflowRuns env m owner repo wid (branch ref) 1 = Inr (workflowRun # rest) \<and>
      recent env m workflowRun"
      by simp
    then show ?thesis by blast
  qed simp_all
qed

lemma waitForStart_never:
  assumes "\<forall>n. attempts \<le> n \<and> n < maxAttempts \<longrightarrow>
     (\<exists>workflow_runs. listWorkflowRuns env n owner repo wid (branch ref) 1 = Inr workflow_runs \<and>
        \<not> eligible env n workflow_runs)"
  shows "waitForStart env owner repo wid ref attempts tr =
     (Inr None,
      tr @ concat (replicate (maxAttempts - attempts) [attempt_call owner repo wid ref, Sleep 2000]))"
  using assms
proof (induction "maxAttempts - attempts" arbitrary: attempts tr)
  case 0
  then show ?case
    by (simp add: waitForStart_exhausted)
next
  case (Suc n)
  from Suc.hyps(2) have lt: "attempts < maxAttempts" and n: "n = maxAttempts - Suc attempts"
    by simp_all
  from Suc.prems lt obtain workflow_runs where
    l: "listWorkflowRuns env attempts owner repo wid (branch ref) 1 = Inr workflow_runs"
    and e: "\<not> eligible env attempts workflow_runs"
    by blast
  from Suc.prems have later: "\<forall>n. Suc attempts \<le> n \<and> n < maxAttempts \<longrightarrow>
     (\<exists>workflow_runs. listWorkflowRuns env n owner repo wid (branch ref) 1 = Inr workflow_runs \<and>
        \<not> eligible env n workflow_runs)"
    by simp
  have "waitForStart env owner repo wid ref attempts tr =
      waitForStart env owner repo wid ref (Suc attempts)
       (tr @ [attempt_call owner repo wid ref, Sleep 2000])"
    using lt l e by (rule waitForStart_retry)
  also have "\<dots> = (Inr None,
      (tr @ [attempt_call owner repo wid ref, Sleep 2000]) @
      concat (replicate (maxAttempts - Suc attempts) [attempt_call owner repo wid ref, Sleep 2000]))"
    using n later by (rule Suc.hyps(1))
  also have "(tr @ [attempt_call owner repo wid ref, Sleep 2000]) @
      concat (replicate (maxAttempts - Suc attempts) [attempt_call owner repo wid ref, Sleep 2000]) =
      tr @ concat (replicate (maxAttempts - attempts) [attempt_call owner repo wid ref, Sleep 2000])"
    using Suc.hyps(2) [symmetric] n by simp
  finally show ?case .
qed

subsection \<open>The branch of the listing calls\<close>

text \<open>
  The branch is the name behind a leading \<open>refs/heads/\<close>, and the ref itself when
  \<open>refs/heads/\<close> occurs nowhere in it.
\<close>

lemma branch_of_heads_ref: "branch (''refs/heads/'' @ name) = name"
  unfolding branch_def by (rule String_replace_prefix)

lemma branch_unchanged: "\<not> sublist ''refs/heads/'' ref \<Longrightarrow> branch ref = ref"
  unfolding branch_def by (rule String_replace_absent)

text \<open>Every listing call of the loop is the call of one attempt.\<close>

lemma waitForStart_calls:
  "waitForStart env owner repo wid ref attempts tr = (res, tr') \<Longrightarrow>
   \<exists>added. tr' = tr @ added \<and>
     (\<forall>e\<in>set added. is_api_call e \<longrightarrow> e = ListWorkflowRuns owner repo wid (branch ref) 1)"
proof (induction "maxAttempts - attempts" arbitrary: attempts tr)
  case 0
  then show ?case
    by (simp add: waitForStart_exhausted)
next
  case (Suc n)
  from Suc.prems show ?case
  proof (cases rule: waitForStart_cases)
    case exhausted
    then show ?thesis by simp
  next
    case (error e)
    then show ?thesis by (simp add: attempt_call_def)
  next
    case (found latestRun rest)
    then show ?thesis by (simp add: attempt_call_def started_def)
  next
    case (retry workflow_runs)
    from Suc.hyps(2) have "n = maxAttempts - Suc attempts" by simp
    from Suc.hyps(1) [OF this retry(4)] obtain added where
      "tr' = (tr @ [attempt_call owner repo wid ref, Sleep 2000]) @ added"
      "\<forall>e\<in>set added. is_api_call e \<longrightarrow> e = ListWorkflowRuns owner repo wid (branch ref) 1"
      by blast
    then have "tr' = tr @ ([attempt_call owner repo wid ref, Sleep 2000] @ added) \<and>
       (\<forall>e\<in>set ([attempt_call owner repo wid ref, Sleep 2000] @ added).
          is_api_call e \<longrightarrow> e = ListWorkflowRuns owner repo wid (branch ref) 1)"
      by (simp add: attempt_call_def)
    then show ?thesis by blast
  qed
qed

subsection \<open>Waiting for the run to complete\<close>

lemma waitForCompletion_done:
  "run_status workflowRun = ''completed'' \<Longrightarrow>
   waitForCompletion env owner repo calls workflowRun tr = Some (Inr workflowRun, tr)"
  by (simp add: waitForCompletion.simps)

lemma waitForCompletion_error:
  "run_status workflowRun \<noteq> ''completed'' \<Longrightarrow>
   getWorkflowRun env calls owner repo (run_id workflowRun) = Inl e \<Longrightarrow>
   waitForCompletion env owner repo calls workflowRun tr =
     Some (Inl e, tr @ [GetWorkflowRun owner repo (run_id workflowRun)])"
  by (simp add: waitForCompletion.simps [of env owner repo calls workflowRun])

lemma waitForCompletion_fetch:
  "run_status workflowRun \<noteq> ''completed'' \<Longrightarrow>
   getWorkflowRun env calls owner repo (run_id workflowRun) = Inr data \<Longrightarrow>
   waitForCompletion env owner repo calls workflowRun tr =
     waitForCompletion env owner repo (Suc calls) data
       (tr @ fetch owner repo (run_id workflowRun) data)"
  by (simp add: waitForCompletion.simps [of env owner repo calls workflowRun] fetch_def)

text \<open>
  The loop along a sequence of snapshots \<open>s 0\<close>, \<open>s 1\<close>, ..., \<open>s k\<close>, the first of them
  held when the loop is entered, each next one fetched by the id of the one before,
  and \<open>s k\<close> the first that is completed.
\<close>

lemma waitForCompletion_snapshots:
  assumes "\<forall>j<k. run_status (s j) \<noteq> ''completed'' \<and>
     getWorkflowRun env (calls + j) owner repo (run_id (s j)) = Inr (s (Suc j))"
    and "run_status (s k) = ''completed''"
  shows "waitForCompletion env owner repo calls (s 0) tr =
     Some (Inr (s k),
       tr @ concat (map (\<lambda>j. fetch owner repo (run_id (s j)) (s (Suc j))) [0..<k]))"
  using assms
proof (induction k arbitrary: calls s tr)
  case 0
  then show ?case
    by (simp add: waitForCompletion_done)
next
  case (Suc k)
  let ?s = "\<lambda>j. s (Suc j)"
  from Suc.prems(1) have first: "run_status (s 0) \<noteq> ''completed''"
    "getWorkflowRun env calls owner repo (run_id (s 0)) = Inr (s (Suc 0))"
    by auto
  have rest: "\<forall>j<k. run_status (?s j) \<noteq> ''completed'' \<and>
     getWorkflowRun env (Suc calls + j) owner repo (run_id (?s j)) = Inr (?s (Suc j))"
    using Suc.prems(1) by auto
  have "waitForCompletion env owner repo calls (s 0) tr =
      waitForCompletion env owner repo (Suc calls) (?s 0)
        (tr @ fetch owner repo (run_id (s 0)) (s (Suc 0)))"
    using first by (rule waitForCompletion_fetch)
  also have "\<dots> = Some (Inr (?s k),
      (tr @ fetch owner repo (run_id (s 0)) (s (Suc 0))) @
      concat (map (\<lambda>j. fetch owner repo (run_id (?s j)) (?s (Suc j))) [0..<k]))"
    using rest Suc.prems(2) by (rule Suc.IH)
  also have "concat (map (\<lambda>j. fetch owner repo (run_id (?s j)) (?s (Suc j))) [0..<k]) =
      concat (map (\<lambda>j. fetch owner repo (run_id (s j)) (s (Suc j))) (map Suc [0..<k]))"
    by (simp add: comp_def)
  also have "(tr @ fetch owner repo (run_id (s 0)) (s (Suc 0))) @ \<dots> =
      tr @ concat (map (\<lambda>j. fetch owner repo (run_id (s j)) (s (Suc j))) [0..<Suc k])"
    by (simp add: map_Suc_upt upt_conv_Cons del: upt_Suc)
  finally show ?case .
qed

text \<open>
  Whatever the API answers: if the loop returns a run, the run is completed; the
  loop sets no output and only adds to the trace.
\<close>

lemma outputs_fetch: "outputs (fetch owner repo rid data) = []"
  by (simp add: fetch_def)

lemma waitForCompletion_returns:
  assumes "waitForCompletion env owner repo calls workflowRun tr = Some y"
  shows "(\<forall>final. fst y = Inr final \<longrightarrow> run_status final = ''completed'') \<and>
     outputs (snd y) = outputs tr \<and> prefix tr (snd y)"
proof (rule waitForCompletion.raw_induct
    [where P = "\<lambda>env owner repo calls workflowRun tr y.
       (\<forall>final. fst y = Inr final \<longrightarrow> run_status final = ''completed'') \<and>
       outputs (snd y) = outputs tr \<and> prefix tr (snd y)", OF _ assms])
  fix loop env owner repo calls workflowRun tr y
  assume IH: "\<And>env owner repo calls workflowRun tr y.
      loop env owner repo calls workflowRun tr = Some y \<Longrightarrow>
      (\<forall>final. fst y = Inr final \<longrightarrow> run_status final = ''completed'') \<and>
      outputs (snd y) = outputs tr \<and> prefix tr (snd y)"
    and body: "(if run_status workflowRun \<noteq> ''completed'' then
        (let tr' = tr @ [GetWorkflowRun owner repo (run_id workflowRun)]
         in case getWorkflowRun env calls owner repo (run_id workflowRun) of
              Inl e \<Rightarrow> Some (Inl e, tr')
            | Inr data \<Rightarrow>
                loop env owner repo (Suc calls) data
                  (if run_status data \<noteq> ''completed'' then tr' @ [Sleep 5000] else tr'))
      else Some (Inr workflowRun, tr)) = Some y"
  show "(\<forall>final. fst y = Inr final \<longrightarrow> run_status final = ''completed'') \<and>
     outputs (snd y) = outputs tr \<and> prefix tr (snd y)"
  proof (cases "run_status workflowRun = ''completed''")
    case True
    with body show ?thesis by auto
  next
    case running: False
    show ?thesis
    proof (cases "getWorkflowRun env calls owner repo (run_id workflowRun)")
      case (Inl e)
      with running body show ?thesis
        by (auto simp: outputs_append)
    next
      case (Inr data)
      with running body have "loop env owner repo (Suc calls) data
          (tr @ fetch owner repo (run_id workflowRun) data) = Some y"
        by (cases "run_status data = ''completed''") (simp_all add: fetch_def Let_def)
      from IH [OF this] show ?thesis
        by (auto simp: outputs_append outputs_fetch dest: append_prefixD)
    qed
  qed
qed

text \<open>
  The loop does not return while the run it holds and the answers it gets are not
  completed: if it returns, the run held at first is completed, or one of the
  calls from \<open>calls\<close> on was answered with an error or with a completed run.
\<close>

lemma waitForCompletion_stops:
  assumes "waitForCompletion env owner repo calls workflowRun tr = Some y"
  shows "run_status workflowRun = ''completed'' \<or>
     (\<exists>n rid. calls \<le> n \<and>
        (case getWorkflowRun env n owner repo rid of
           Inl e \<Rightarrow> True
         | Inr data \<Rightarrow> run_status data = ''completed''))"
proof (rule waitForCompletion.raw_induct
    [where P = "\<lambda>env owner repo calls workflowRun tr y.
       run_status workflowRun = ''completed'' \<or>
       (\<exists>n rid. calls \<le> n \<and>
          (case getWorkflowRun env n owner repo rid of
             Inl e \<Rightarrow> True
           | Inr data \<Rightarrow> run_status data = ''completed''))", OF _ assms])
  fix loop env owner repo calls workflowRun tr y
  assume IH: "\<And>env owner repo calls workflowRun tr y.
      loop env owner repo calls workflowRun tr = Some y \<Longrightarrow>
      run_status workflowRun = ''completed'' \<or>
       (\<exists>n rid. calls \<le> n \<and>
          (case getWorkflowRun env n owner repo rid of
             Inl e \<Rightarrow> True
           | Inr data \<Rightarrow> run_status data = ''completed''))"
    and body: "(if run_status workflowRun \<noteq> ''completed'' then
        (let tr' = tr @ [GetWorkflowRun owner repo (run_id workflowRun)]
         in case getWorkflowRun env calls owner repo (run_id workflowRun) of
              Inl e \<Rightarrow> Some (Inl e, tr')
            | Inr data \<Rightarrow>
                loop env owner repo (Suc calls) data
                  (if run_status data \<noteq> ''completed'' then tr' @ [Sleep 5000] else tr'))
      else Some (Inr workflowRun, tr)) = Some y"
  show "run_status workflowRun = ''completed'' \<or>
       (\<exists>n rid. calls \<le> n \<and>
          (case getWorkflowRun env n owner repo rid of
             Inl e \<Rightarrow> True
           | Inr data \<Rightarrow> run_status data = ''completed''))"
  proof (cases "run_status workflowRun = ''completed''")
    case True
    then show ?thesis by simp
  next
    case running: False
    show ?thesis
    proof (cases "getWorkflowRun env calls owner repo (run_id workflowRun)")
      case (Inl e)
      then have "calls \<le> calls \<and>
          (case getWorkflowRun env calls owner repo (run_id workflowRun) of
             Inl e \<Rightarrow> True
           | Inr data \<Rightarrow> run_status data = ''completed'')"
        by simp
      then show ?thesis by blast
    next
      case (Inr data)
      show ?thesis
      proof (cases "run_status data = ''completed''")
        case True
        with Inr have "calls \<le> calls \<and>
          (case getWorkflowRun env calls owner repo (run_id workflowRun) of
             Inl e \<Rightarrow> True
           | Inr data \<Rightarrow> run_status data = ''completed'')"
          by simp
        then show ?thesis by blast
      next
        case False
        with running body Inr have "loop env owner repo (Suc calls) data
            (tr @ fetch owner repo (run_id workflowRun) data) = Some y"
          by (simp add: fetch_def Let_def)
        from IH [OF this] False obtain n rid where "Suc calls \<le> n"
          "case getWorkflowRun env n owner repo rid of
             Inl e \<Rightarrow> True
           | Inr data \<Rightarrow> run_status data = ''completed''"
          by blast
        then have "calls \<le> n \<and>
          (case getWorkflowRun env n owner repo rid of
             Inl e \<Rightarrow> True
           | Inr data \<Rightarrow> run_status data = ''completed'')"
          by simp
        then show ?thesis by blast
      qed
    qed
  qed
qed

lemma waitForCompletion_forever:
  assumes "run_status workflowRun \<noteq> ''completed''"
    and "\<forall>n rid. \<exists>data. getWorkflowRun env n owner repo rid = Inr data \<and>
       run_status data \<noteq> ''completed''"
  shows "waitForCompletion env owner repo calls workflowRun tr = None"
proof (cases "waitForCompletion env owner repo calls workflowRun tr")
  case None
  then show ?thesis .
next
  case (Some y)
  from waitForCompletion_stops [OF Some] assms(1) obtain n rid where
    "case getWorkflowRun env n owner repo rid of
       Inl e \<Rightarrow> True
     | Inr data \<Rightarrow> run_status data = ''completed''"
    by blast
  moreover from assms(2) obtain data where
    "getWorkflowRun env n owner repo rid = Inr data" "run_status data \<noteq> ''completed''"
    by blast
  ultimately show ?thesis by simp
qed

subsection \<open>Locating the workflow\<close>

lemma matches_spec: "matches identifier w = spec_matches identifier w"
  by (simp add: matches_def spec_matches_def endsWith_suffix)

lemma find_first:
  "List.find P xs = Some x \<Longrightarrow>
   \<exists>pre post. xs = pre @ x # post \<and> P x \<and> (\<forall>y\<in>set pre. \<not> P y)"
proof (induction xs)
  case Nil
  then show ?case by simp
next
  case (Cons a xs)
  show ?case
  proof (cases "P a")
    case True
    with Cons.prems have "a = x" by simp
    with True have "a # xs = [] @ x # xs \<and> P x \<and> (\<forall>y\<in>set []. \<not> P y)" by simp
    then show ?thesis by blast
  next
    case False
    with Cons.prems have "List.find P xs = Some x" by simp
    from Cons.IH [OF this] obtain pre post
      where "xs = pre @ x # post" "P x" "\<forall>y\<in>set pre. \<not> P y" by blast
    with False have "a # xs = (a # pre) @ x # post \<and> P x \<and> (\<forall>y\<in>set (a # pre). \<not> P y)"
      by simp
    then show ?thesis by blast
  qed
qed

lemma sublist_not_found:
  "sublist workflowRef (not_found workflowRef owner repo)"
  "sublist (template owner) (not_found workflowRef owner repo)"
  "sublist (template repo) (not_found workflowRef owner repo)"
proof -
  have "not_found workflowRef owner repo =
      (''Unable to find workflow '' @ [CHR 0x27]) @ workflowRef @
      ([CHR 0x27] @ '' in '' @ template owner @ ''/'' @ template repo @ '' '' @ sad)"
    by (simp add: not_found_def)
  then show "sublist workflowRef (not_found workflowRef owner repo)"
    unfolding sublist_def by blast
  have "not_found workflowRef owner repo =
      (''Unable to find workflow '' @ [CHR 0x27] @ workflowRef @ [CHR 0x27] @ '' in '') @
      template owner @ (''/'' @ template repo @ '' '' @ sad)"
    by (simp add: not_found_def)
  then show "sublist (template owner) (not_found workflowRef owner repo)"
    unfolding sublist_def by blast
  have "not_found workflowRef owner repo =
      (''Unable to find workflow '' @ [CHR 0x27] @ workflowRef @ [CHR 0x27] @ '' in '' @
       template owner @ ''/'') @ template repo @ ('' '' @ sad)"
    by (simp add: not_found_def)
  then show "sublist (template repo) (not_found workflowRef owner repo)"
    unfolding sublist_def by blast
qed

subsection \<open>The outputs along the trace\<close>

lemma outputs_until_request:
  "outputs (until_request env owner repo workflows found inputs) = []"
  "filter is_GetWorkflowRun (until_request env owner repo workflows found inputs) = []"
  by (simp_all add: until_request_def banner_def)

lemma outputs_dispatch_ok:
  "outputs (dispatch_ok status found) = [(''workflowId'', VNumber (workflow_id found))]"
  "filter is_GetWorkflowRun (dispatch_ok status found) = []"
  by (simp_all add: dispatch_ok_def)

lemma outputs_report:
  "outputs (report workflowRun) =
     [(''workflow_run_id'', VNumber (run_id workflowRun)),
      (''workflow_run_status'', VString (run_status workflowRun)),
      (''workflow_run_conclusion'', nullable (run_conclusion workflowRun))]"
  "filter is_GetWorkflowRun (report workflowRun) = []"
  by (simp_all add: report_def)

lemma dispatch_phase_Inl:
  assumes "dispatch_phase env = (Inl e, tr)"
  shows "outputs tr = []" and "filter is_GetWorkflowRun tr = []"
proof -
  have "outputs tr = [] \<and> filter is_GetWorkflowRun tr = []"
  proof (cases env rule: dispatch_phase_cases)
    case (refused e owner repo workflows found inputs)
    with assms have "tr = until_request env owner repo workflows found inputs"
      by simp
    then show ?thesis
      by (simp add: outputs_until_request)
  next
    case (dispatched owner repo workflows found inputs status)
    with assms show ?thesis by simp
  qed (use assms in \<open>simp_all add: banner_def\<close>)
  then show "outputs tr = []" and "filter is_GetWorkflowRun tr = []"
    by simp_all
qed

lemma dispatch_phase_Inr:
  assumes "dispatch_phase env = (Inr d, tr)"
  shows "\<exists>workflows inputs status.
     decode_inputs env = Inr inputs \<and>
     tr = until_request env (the_owner d) (the_repo d) workflows (the_workflow d) inputs @
          dispatch_ok status (the_workflow d)"
proof (cases env rule: dispatch_phase_cases)
  case (dispatched owner repo workflows found inputs status)
  with assms have "decode_inputs env = Inr inputs \<and>
     tr = until_request env (the_owner d) (the_repo d) workflows (the_workflow d) inputs @
          dispatch_ok status (the_workflow d)"
    by auto
  then show ?thesis by blast
qed (use assms in simp_all)

lemma dispatch_phase_Inr_outputs:
  assumes "dispatch_phase env = (Inr d, tr)"
  shows "outputs tr = [(''workflowId'', VNumber (workflow_id (the_workflow d)))]"
    and "filter is_GetWorkflowRun tr = []"
  using dispatch_phase_Inr [OF assms]
  by (auto simp: outputs_append outputs_until_request outputs_dispatch_ok)

subsection \<open>The guarded region and its handler\<close>

lemma run_try_not_dispatched:
  "dispatch_phase env = (Inl e, tr) \<Longrightarrow> run_try env = Some (Inl e, tr)"
  by (simp add: run_try_def)

lemma run_try_start_error:
  "dispatch_phase env = (Inr d, tr) \<Longrightarrow>
   waitForStart env (the_owner d) (the_repo d) (workflow_id (the_workflow d)) (the_ref d) 0
     (tr @ [waiting_to_start]) = (Inl e, tr') \<Longrightarrow>
   run_try env = Some (Inl e, tr')"
  by (simp add: run_try_def)

lemma run_try_timed_out:
  "dispatch_phase env = (Inr d, tr) \<Longrightarrow>
   waitForStart env (the_owner d) (the_repo d) (workflow_id (the_workflow d)) (the_ref d) 0
     (tr @ [waiting_to_start]) = (Inr None, tr') \<Longrightarrow>
   run_try env = Some (Inl timed_out, tr')"
  by (simp add: run_try_def)

lemma run_try_started:
  "dispatch_phase env = (Inr d, tr) \<Longrightarrow>
   waitForStart env (the_owner d) (the_repo d) (workflow_id (the_workflow d)) (the_ref d) 0
     (tr @ [waiting_to_start]) = (Inr (Some workflowRun), tr') \<Longrightarrow>
   run_try env =
     (case waitForCompletion env (the_owner d) (the_repo d) 0 workflowRun
             (tr' @ [waiting_to_complete]) of
        None \<Rightarrow> None
      | Some (Inl e, tr) \<Rightarrow> Some (Inl e, tr)
      | Some (Inr workflowRun, tr) \<Rightarrow> Some (Inr (), tr @ report workflowRun))"
  by (simp add: run_try_def)

lemma run_thrown:
  "run_try env = Some (Inl message, tr) \<Longrightarrow>
   run env = Some (fst (handler message), tr @ snd (handler message))"
  by (simp add: run_def split: prod.splits)

lemma run_returned:
  "run_try env = Some (Inr u, tr) \<Longrightarrow> run env = Some (Success, tr)"
  by (simp add: run_def)

lemma outputs_handler: "outputs (snd (handler message)) = []"
  by (simp add: handler_def)

lemma run_outputs:
  assumes "run env = Some (result, tr)"
  shows "\<exists>res tr'. run_try env = Some (res, tr') \<and> outputs tr = outputs tr'"
proof (cases "run_try env")
  case None
  with assms show ?thesis by (simp add: run_def)
next
  case (Some y)
  obtain res tr' where y: "y = (res, tr')" by (cases y)
  show ?thesis
  proof (cases res)
    case (Inl message)
    with Some y assms run_thrown [of env message tr'] show ?thesis
      by (auto simp: outputs_append outputs_handler)
  next
    case (Inr u)
    with Some y assms run_returned [of env u tr'] show ?thesis
      by auto
  qed
qed

text \<open>The outputs of the guarded region, by the phase that ends it.\<close>

lemma run_try_outputs_not_dispatched:
  assumes "dispatch_phase env = (Inl e, t)" and "run_try env = Some (res, tr)"
  shows "res = Inl e \<and> outputs tr = []"
  using assms dispatch_phase_Inl(1) [OF assms(1)]
  by (simp add: run_try_not_dispatched)

lemma run_try_outputs_dispatched:
  assumes d: "dispatch_phase env = (Inr d, t)" and r: "run_try env = Some (res, tr)"
  shows "(\<forall>e. res = Inl e \<longrightarrow> outputs tr = [(''workflowId'', VNumber (workflow_id (the_workflow d)))]) \<and>
     (\<forall>u. res = Inr u \<longrightarrow>
        (\<exists>workflowRun. run_status workflowRun = ''completed'' \<and>
           outputs tr =
             (''workflowId'', VNumber (workflow_id (the_workflow d))) #
             outputs (report workflowRun)))"
proof -
  let ?id = "(''workflowId'', VNumber (workflow_id (the_workflow d)))"
  obtain res2 tr2 where
    w: "waitForStart env (the_owner d) (the_repo d) (workflow_id (the_workflow d)) (the_ref d)
          0 (t @ [waiting_to_start]) = (res2, tr2)"
    by (cases "waitForStart env (the_owner d) (the_repo d) (workflow_id (the_workflow d))
          (the_ref d) 0 (t @ [waiting_to_start])")
  from waitForStart_trace [OF w] obtain added where
    "tr2 = (t @ [waiting_to_start]) @ added" "outputs added = []"
    by blast
  then have o2: "outputs tr2 = [?id]"
    using dispatch_phase_Inr_outputs(1) [OF d]
    by (simp add: outputs_append waiting_to_start_def)
  show ?thesis
  proof (cases res2)
    case (Inl e)
    with w have "run_try env = Some (Inl e, tr2)"
      using run_try_start_error [OF d] by simp
    with r have "res = Inl e" "tr = tr2" by simp_all
    with o2 show ?thesis by simp
  next
    case (Inr found)
    show ?thesis
    proof (cases found)
      case None
      with Inr w have "run_try env = Some (Inl timed_out, tr2)"
        using run_try_timed_out [OF d] by simp
      with r have "res = Inl timed_out" "tr = tr2" by simp_all
      with o2 show ?thesis by simp
    next
      case (Some workflowRun)
      with Inr w have c: "run_try env =
         (case waitForCompletion env (the_owner d) (the_repo d) 0 workflowRun
                 (tr2 @ [waiting_to_complete]) of
            None \<Rightarrow> None
          | Some (Inl e, tr) \<Rightarrow> Some (Inl e, tr)
          | Some (Inr workflowRun, tr) \<Rightarrow> Some (Inr (), tr @ report workflowRun))"
        using run_try_started [OF d] by simp
      show ?thesis
      proof (cases "waitForCompletion env (the_owner d) (the_repo d) 0 workflowRun
                 (tr2 @ [waiting_to_complete])")
        case None
        with c r show ?thesis by simp
      next
        case (Some y)
        obtain res3 tr3 where y: "y = (res3, tr3)" by (cases y)
        have "outputs (tr2 @ [waiting_to_complete]) = [?id]"
          using o2 by (simp add: outputs_append waiting_to_complete_def)
        with waitForCompletion_returns [OF Some] y
        have fin: "\<forall>final. res3 = Inr final \<longrightarrow> run_status final = ''completed''"
          and o3: "outputs tr3 = [?id]"
          by simp_all
        show ?thesis
        proof (cases res3)
          case (Inl e)
          with c Some y r have "res = Inl e" "tr = tr3" by simp_all
          with o3 show ?thesis by simp
        next
          case (Inr final)
          with c Some y r have "res = Inr ()" "tr = tr3 @ report final"
            by simp_all
          moreover from fin Inr have "run_status final = ''completed''"
            by simp
          ultimately have "res = Inr () \<and> run_status final = ''completed'' \<and>
              outputs tr = ?id # outputs (report final)"
            using o3 by (simp add: outputs_append)
          then show ?thesis by blast
        qed
      qed
    qed
  qed
qed

lemma run_try_extends:
  assumes d: "dispatch_phase env = (x, t)" and r: "run_try env = Some (res, tr)"
  shows "prefix t tr"
proof (cases x)
  case (Inl e)
  with d r show ?thesis
    by (simp add: run_try_not_dispatched)
next
  case (Inr dd)
  with d have d: "dispatch_phase env = (Inr dd, t)" by simp
  obtain res2 tr2 where
    w: "waitForStart env (the_owner dd) (the_repo dd) (workflow_id (the_workflow dd))
          (the_ref dd) 0 (t @ [waiting_to_start]) = (res2, tr2)"
    by (cases "waitForStart env (the_owner dd) (the_repo dd) (workflow_id (the_workflow dd))
          (the_ref dd) 0 (t @ [waiting_to_start])")
  from waitForStart_trace [OF w] have p2: "prefix t tr2"
    by auto
  show ?thesis
  proof (cases res2)
    case (Inl e)
    with w r p2 run_try_start_error [OF d] show ?thesis by simp
  next
    case (Inr found)
    show ?thesis
    proof (cases found)
      case None
      with Inr w r p2 run_try_timed_out [OF d] show ?thesis by simp
    next
      case (Some workflowRun)
      with Inr w have c: "run_try env =
         (case waitForCompletion env (the_owner dd) (the_repo dd) 0 workflowRun
                 (tr2 @ [waiting_to_complete]) of
            None \<Rightarrow> None
          | Some (Inl e, tr) \<Rightarrow> Some (Inl e, tr)
          | Some (Inr workflowRun, tr) \<Rightarrow> Some (Inr (), tr @ report workflowRun))"
        using run_try_started [OF d] by simp
      show ?thesis
      proof (cases "waitForCompletion env (the_owner dd) (the_repo dd) 0 workflowRun
                 (tr2 @ [waiting_to_complete])")
        case None
        with c r show ?thesis by simp
      next
        case (Some y)
        from waitForCompletion_returns [OF Some] have "prefix (tr2 @ [waiting_to_complete]) (snd y)"
          by simp
        then have "prefix tr2 (snd y)"
          by (rule append_prefixD)
        with p2 have p3: "prefix t (snd y)"
          by (rule prefix_order.trans)
        obtain res3 tr3 where y: "y = (res3, tr3)" by (cases y)
        show ?thesis
        proof (cases res3)
          case (Inl e)
          with c Some y r have "tr = tr3" by simp
          with p3 y show ?thesis by simp
        next
          case (Inr final)
          with c Some y r have "tr = tr3 @ report final" by simp
          with p3 y show ?thesis by (simp add: prefix_prefix)
        qed
      qed
    qed
  qed
qed

lemma run_extends:
  assumes "dispatch_phase env = (x, t)" and "run env = Some (result, tr)"
  shows "prefix t tr"
proof (cases "run_try env")
  case None
  with assms show ?thesis by (simp add: run_def)
next
  case (Some y)
  obtain res tr' where y: "y = (res, tr')" by (cases y)
  with Some have t: "run_try env = Some (res, tr')" by simp
  from run_try_extends [OF assms(1) t] have p: "prefix t tr'" .
  show ?thesis
  proof (cases res)
    case (Inl message)
    with t assms(2) run_thrown [of env message tr'] have "tr = tr' @ snd (handler message)"
      by simp
    with p show ?thesis by (simp add: prefix_prefix)
  next
    case (Inr u)
    with t assms(2) run_returned [of env u tr'] p show ?thesis by simp
  qed
qed

lemma handler_disabled:
  "endsWith message ''a disabled workflow'' \<Longrightarrow>
   handler message = (Success, [Warning ''Workflow is disabled, no action was taken''])"
  by (simp add: handler_def disabled_def)

lemma handler_other:
  "\<not> endsWith message ''a disabled workflow'' \<Longrightarrow>
   handler message = (Failure message, [SetFailed message])"
  by (simp add: handler_def disabled_def)

section \<open>The claims\<close>

text \<open>
  C1, as the code has it. Let the correlator have found the run \<open>correlated\<close>. Let
  \<open>s 0\<close> be \<open>correlated\<close> and \<open>s 1\<close>, ..., \<open>s k\<close> the answers of the first \<open>k\<close> requests,
  each request made for the id of the snapshot held at that time, and \<open>s k\<close> the
  first snapshot that is completed. Then the invocation returns after exactly \<open>k\<close>
  requests, with a pause of 5000 milliseconds after each answer that is not
  completed; it sets \<open>workflow_run_id\<close> to the id of \<open>s k\<close>, \<open>workflow_run_status\<close> to
  \<open>completed\<close> and \<open>workflow_run_conclusion\<close> to the conclusion of \<open>s k\<close>. The first
  request is for the id of \<open>correlated\<close>; all the ids, that of the output included,
  are the id of \<open>correlated\<close> when the API answers a request for that run with a
  snapshot of that run. (That the loop returns no run that is not completed, and
  does not return at all while no answer is completed, is \<open>waitForCompletion_returns\<close>
  and \<open>waitForCompletion_forever\<close>.)
\<close>

theorem poller_fetches_by_latest_snapshot:
  assumes "dispatch_phase env = (Inr d, tr1)"
    and "waitForStart env (the_owner d) (the_repo d) (workflow_id (the_workflow d)) (the_ref d) 0
           (tr1 @ [waiting_to_start]) = (Inr (Some correlated), tr2)"
    and s0: "s 0 = correlated"
    and steps: "\<forall>j<k. run_status (s j) \<noteq> ''completed'' \<and>
       getWorkflowRun env j (the_owner d) (the_repo d) (run_id (s j)) = Inr (s (Suc j))"
    and fin: "run_status (s k) = ''completed''"
  shows "run env =
     Some (Success,
       tr2 @ [waiting_to_complete] @
       concat (map (\<lambda>j. GetWorkflowRun (the_owner d) (the_repo d) (run_id (s j)) #
                      (if run_status (s (Suc j)) \<noteq> ''completed'' then [Sleep 5000] else []))
                 [0..<k]) @
       report (s k)) \<and>
     outputs (report (s k)) =
       [(''workflow_run_id'', VNumber (run_id (s k))),
        (''workflow_run_status'', VString ''completed''),
        (''workflow_run_conclusion'', nullable (run_conclusion (s k)))] \<and>
     ((\<forall>calls data.
         getWorkflowRun env calls (the_owner d) (the_repo d) (run_id correlated) = Inr data \<longrightarrow>
         run_id data = run_id correlated) \<longrightarrow>
      (\<forall>j\<le>k. run_id (s j) = run_id correlated))"
proof (intro conjI impI allI)
  have "\<forall>j<k. run_status (s j) \<noteq> ''completed'' \<and>
     getWorkflowRun env (0 + j) (the_owner d) (the_repo d) (run_id (s j)) = Inr (s (Suc j))"
    using steps by simp
  from waitForCompletion_snapshots [OF this fin, of "tr2 @ [waiting_to_complete]"]
  have "waitForCompletion env (the_owner d) (the_repo d) 0 correlated
      (tr2 @ [waiting_to_complete]) =
     Some (Inr (s k),
       (tr2 @ [waiting_to_complete]) @
       concat (map (\<lambda>j. fetch (the_owner d) (the_repo d) (run_id (s j)) (s (Suc j))) [0..<k]))"
    by (simp only: s0)
  then have "waitForCompletion env (the_owner d) (the_repo d) 0 correlated
      (tr2 @ [waiting_to_complete]) =
     Some (Inr (s k),
       (tr2 @ [waiting_to_complete]) @
       concat (map (\<lambda>j. GetWorkflowRun (the_owner d) (the_repo d) (run_id (s j)) #
                      (if run_status (s (Suc j)) \<noteq> ''completed'' then [Sleep 5000] else []))
                 [0..<k]))"
    by (simp only: fetch_def)
  with run_try_started [OF assms(1,2)]
  have "run_try env =
     Some (Inr (),
       tr2 @ [waiting_to_complete] @
       concat (map (\<lambda>j. GetWorkflowRun (the_owner d) (the_repo d) (run_id (s j)) #
                      (if run_status (s (Suc j)) \<noteq> ''completed'' then [Sleep 5000] else []))
                 [0..<k]) @
       report (s k))"
    by simp
  then show "run env =
     Some (Success,
       tr2 @ [waiting_to_complete] @
       concat (map (\<lambda>j. GetWorkflowRun (the_owner d) (the_repo d) (run_id (s j)) #
                      (if run_status (s (Suc j)) \<noteq> ''completed'' then [Sleep 5000] else []))
                 [0..<k]) @
       report (s k))"
    by (rule run_returned)
next
  show "outputs (report (s k)) =
       [(''workflow_run_id'', VNumber (run_id (s k))),
        (''workflow_run_status'', VString ''completed''),
        (''workflow_run_conclusion'', nullable (run_conclusion (s k)))]"
    using fin by (simp add: outputs_report)
next
  fix j
  assume api: "\<forall>calls data.
         getWorkflowRun env calls (the_owner d) (the_repo d) (run_id correlated) = Inr data \<longrightarrow>
         run_id data = run_id correlated"
  have ids: "j \<le> k \<Longrightarrow> run_id (s j) = run_id correlated" for j
  proof (induction j)
    case 0
    show ?case by (simp add: s0)
  next
    case (Suc j)
    then have "run_id (s j) = run_id correlated" by simp
    moreover from Suc.prems steps
    have "getWorkflowRun env j (the_owner d) (the_repo d) (run_id (s j)) = Inr (s (Suc j))"
      by simp
    ultimately have
      "getWorkflowRun env j (the_owner d) (the_repo d) (run_id correlated) = Inr (s (Suc j))"
      by simp
    with api show ?case by blast
  qed
  assume "j \<le> k"
  then show "run_id (s j) = run_id correlated"
    by (rule ids)
qed

theorem poller_fetches_by_latest_snapshot_witness:
  "run demo =
     Some (Success,
       snd (waitForStart demo (Some ''octo'') (Some ''demo'') 42 ''refs/heads/main'' 0
              (snd (dispatch_phase demo) @ [waiting_to_start])) @
       [waiting_to_complete,
        GetWorkflowRun (Some ''octo'') (Some ''demo'') 901, Sleep 5000,
        GetWorkflowRun (Some ''octo'') (Some ''demo'') 901] @
       report completed) \<and>
   outputs (report completed) =
     [(''workflow_run_id'', VNumber 901),
      (''workflow_run_status'', VString ''completed''),
      (''workflow_run_conclusion'', VString ''success'')]"
proof -
  let ?d = "\<lparr>the_owner = Some ''octo'', the_repo = Some ''demo'', the_ref = ''refs/heads/main'',
        the_workflow = deploy\<rparr>"
  let ?w = "waitForStart demo (Some ''octo'') (Some ''demo'') 42 ''refs/heads/main'' 0
              (snd (dispatch_phase demo) @ [waiting_to_start])"
  have "fst (dispatch_phase demo) = Inr ?d"
    by code_simp
  then have d: "dispatch_phase demo = (Inr ?d, snd (dispatch_phase demo))"
    by (simp add: prod_eq_iff)
  have "fst ?w = Inr (Some queued)"
    by code_simp
  then have "?w = (Inr (Some queued), snd ?w)"
    by (simp add: prod_eq_iff)
  then have w: "waitForStart demo (the_owner ?d) (the_repo ?d) (workflow_id (the_workflow ?d))
      (the_ref ?d) 0 (snd (dispatch_phase demo) @ [waiting_to_start]) =
     (Inr (Some queued), snd ?w)"
    by (simp add: deploy_def)
  have s0: "demo_snapshots 0 = queued"
    by (simp add: demo_snapshots_def)
  have steps: "\<forall>j<2. run_status (demo_snapshots j) \<noteq> ''completed'' \<and>
       getWorkflowRun demo j (the_owner ?d) (the_repo ?d) (run_id (demo_snapshots j)) =
         Inr (demo_snapshots (Suc j))"
    by (simp add: demo_def demo_snapshots_def queued_def in_progress_def less_Suc_eq
        numeral_2_eq_2)
  have fin: "run_status (demo_snapshots 2) = ''completed''"
    by (simp add: demo_snapshots_def completed_def)
  note inst = poller_fetches_by_latest_snapshot [OF d w s0 steps fin]
  have "[0..<2] = [0, Suc 0]"
    by (simp add: upt_conv_Cons numeral_2_eq_2)
  moreover have "run_status (demo_snapshots (Suc 0)) \<noteq> ''completed''"
    "run_status (demo_snapshots (Suc (Suc 0))) = ''completed''"
    "demo_snapshots 2 = completed" "run_id queued = 901"
    "run_id (demo_snapshots 0) = 901" "run_id (demo_snapshots (Suc 0)) = 901"
    "run_id completed = 901"
    "run_conclusion completed = Some ''success''"
    by (simp_all add: demo_snapshots_def in_progress_def completed_def queued_def)
  ultimately show ?thesis
    using inst [THEN conjunct1] inst [THEN conjunct2, THEN conjunct1]
    by simp
qed

text \<open>
  C1, as the specification states it, fails where the API answers the request for
  the correlated run with a snapshot that carries another id: in the example the
  correlated run is 901, the answers carry the id 777, and the second request is
  made for 777, which is also the value of \<open>workflow_run_id\<close>.
\<close>

theorem fetch_by_other_id_counterexample:
  "fst (waitForStart demo_other_run (Some ''octo'') (Some ''demo'') 42 ''refs/heads/main'' 0 []) =
     Inr (Some queued) \<and>
   run_id queued = 901 \<and>
   map_option (\<lambda>(result, tr). (result, filter is_GetWorkflowRun tr, outputs tr))
     (run demo_other_run) =
     Some (Success,
       [GetWorkflowRun (Some ''octo'') (Some ''demo'') 901,
        GetWorkflowRun (Some ''octo'') (Some ''demo'') 777],
       [(''workflowId'', VNumber 42),
        (''workflow_run_id'', VNumber 777),
        (''workflow_run_status'', VString ''completed''),
        (''workflow_run_conclusion'', VString ''success'')])"
proof (intro conjI)
  show "fst (waitForStart demo_other_run (Some ''octo'') (Some ''demo'') 42 ''refs/heads/main''
      0 []) = Inr (Some queued)"
    by code_simp
  show "run_id queued = 901"
    by (simp add: queued_def)
  show "map_option (\<lambda>(result, tr). (result, filter is_GetWorkflowRun tr, outputs tr))
     (run demo_other_run) =
     Some (Success,
       [GetWorkflowRun (Some ''octo'') (Some ''demo'') 901,
        GetWorkflowRun (Some ''octo'') (Some ''demo'') 777],
       [(''workflowId'', VNumber 42),
        (''workflow_run_id'', VNumber 777),
        (''workflow_run_status'', VString ''completed''),
        (''workflow_run_conclusion'', VString ''success'')])"
    by code_simp
qed

text \<open>
  C2. A run that the correlator accepts is the first of the list returned at some
  attempt, its creation date is a valid date, and that date is later than the time
  of the attempt less 60000 milliseconds. So a run created 60 seconds or more
  before the check is never accepted, whatever the listing calls return.
\<close>

theorem correlator_accepts_recent_only:
  assumes "waitForStart env owner repo wid ref attempts tr = (Inr (Some workflowRun), tr')"
  shows "\<exists>n rest created. attempts \<le> n \<and> n < 30 \<and>
     listWorkflowRuns env n owner repo wid (branch ref) 1 = Inr (workflowRun # rest) \<and>
     Date_parse env (run_created_at workflowRun) = Some created \<and>
     Date_now env n - 60000 < created"
proof -
  from waitForStart_accepts [OF assms] obtain n rest where
    n: "attempts \<le> n" "n < maxAttempts"
    "listWorkflowRuns env n owner repo wid (branch ref) 1 = Inr (workflowRun # rest)"
    and "recent env n workflowRun"
    by blast
  from this(4) obtain created where
    "Date_parse env (run_created_at workflowRun) = Some created"
    "Date_now env n - 60000 < created"
    by (auto simp: recent_def split: option.splits)
  with n show ?thesis
    unfolding maxAttempts_def by blast
qed

theorem correlator_accepts_recent_only_witness:
  "fst (waitForStart demo (Some ''octo'') (Some ''demo'') 42 ''refs/heads/main'' 0 []) =
     Inr (Some queued) \<and>
   (\<exists>n rest created. 0 \<le> n \<and> n < 30 \<and>
     listWorkflowRuns demo n (Some ''octo'') (Some ''demo'') 42 (branch ''refs/heads/main'') 1 =
       Inr (queued # rest) \<and>
     Date_parse demo (run_created_at queued) = Some created \<and>
     Date_now demo n - 60000 < created)"
proof -
  have f: "fst (waitForStart demo (Some ''octo'') (Some ''demo'') 42 ''refs/heads/main'' 0 []) =
     Inr (Some queued)"
    by code_simp
  then have "waitForStart demo (Some ''octo'') (Some ''demo'') 42 ''refs/heads/main'' 0 [] =
     (Inr (Some queued),
      snd (waitForStart demo (Some ''octo'') (Some ''demo'') 42 ''refs/heads/main'' 0 []))"
    by (simp add: prod_eq_iff)
  from correlator_accepts_recent_only [OF this] f show ?thesis
    by simp
qed

text \<open>
  C3. When the dispatch has succeeded and each of the 30 listing calls returns a
  list whose first run is missing or not recent, the invocation fails with the
  message of the timeout, after 30 calls each followed by a pause of 2000
  milliseconds; \<open>workflowId\<close> is the only output set.
\<close>

theorem correlation_times_out:
  assumes "dispatch_phase env = (Inr d, tr)"
    and "\<forall>n<30. \<exists>workflow_runs.
       listWorkflowRuns env n (the_owner d) (the_repo d) (workflow_id (the_workflow d))
         (branch (the_ref d)) 1 = Inr workflow_runs \<and>
       \<not> eligible env n workflow_runs"
  shows "run env =
     Some (Failure ''Timed out waiting for workflow run to start'',
       tr @ [waiting_to_start] @
       concat (replicate 30
         [ListWorkflowRuns (the_owner d) (the_repo d) (workflow_id (the_workflow d))
            (branch (the_ref d)) 1,
          Sleep 2000]) @
       [SetFailed ''Timed out waiting for workflow run to start'']) \<and>
     outputs (tr @ [waiting_to_start] @
       concat (replicate 30
         [ListWorkflowRuns (the_owner d) (the_repo d) (workflow_id (the_workflow d))
            (branch (the_ref d)) 1,
          Sleep 2000]) @
       [SetFailed ''Timed out waiting for workflow run to start'']) =
     [(''workflowId'', VNumber (workflow_id (the_workflow d)))]"
proof -
  let ?call = "attempt_call (the_owner d) (the_repo d) (workflow_id (the_workflow d)) (the_ref d)"
  let ?attempts = "concat (replicate 30 [?call, Sleep 2000])"
  from assms(2) have "\<forall>n. 0 \<le> n \<and> n < maxAttempts \<longrightarrow>
     (\<exists>workflow_runs.
        listWorkflowRuns env n (the_owner d) (the_repo d) (workflow_id (the_workflow d))
          (branch (the_ref d)) 1 = Inr workflow_runs \<and>
        \<not> eligible env n workflow_runs)"
    by (simp add: maxAttempts_def)
  then have "waitForStart env (the_owner d) (the_repo d) (workflow_id (the_workflow d))
      (the_ref d) 0 (tr @ [waiting_to_start]) =
     (Inr None, (tr @ [waiting_to_start]) @ concat (replicate (maxAttempts - 0) [?call, Sleep 2000]))"
    by (rule waitForStart_never)
  then have "waitForStart env (the_owner d) (the_repo d) (workflow_id (the_workflow d))
      (the_ref d) 0 (tr @ [waiting_to_start]) =
     (Inr None, tr @ [waiting_to_start] @ ?attempts)"
    by (simp add: maxAttempts_def)
  from run_try_timed_out [OF assms(1) this]
  have t: "run_try env = Some (Inl timed_out, tr @ [waiting_to_start] @ ?attempts)" .
  have "\<not> endsWith timed_out ''a disabled workflow''"
    by code_simp
  with run_thrown [OF t]
  have "run env = Some (Failure timed_out, tr @ [waiting_to_start] @ ?attempts @ [SetFailed timed_out])"
    by (simp add: handler_other)
  moreover have "outputs (tr @ [waiting_to_start] @ ?attempts @ [SetFailed timed_out]) =
     [(''workflowId'', VNumber (workflow_id (the_workflow d)))]"
    using dispatch_phase_Inr_outputs(1) [OF assms(1)]
    by (simp add: outputs_append outputs_attempts waiting_to_start_def)
  ultimately show ?thesis
    by (simp only: timed_out_def attempt_call_def)
qed

theorem correlation_times_out_witness:
  "run demo_never_starts =
     Some (Failure ''Timed out waiting for workflow run to start'',
       snd (dispatch_phase demo_never_starts) @ [waiting_to_start] @
       concat (replicate 30
         [ListWorkflowRuns (Some ''octo'') (Some ''demo'') 42 ''main'' 1, Sleep 2000]) @
       [SetFailed ''Timed out waiting for workflow run to start''])"
proof -
  let ?d = "\<lparr>the_owner = Some ''octo'', the_repo = Some ''demo'', the_ref = ''refs/heads/main'',
        the_workflow = deploy\<rparr>"
  have "fst (dispatch_phase demo_never_starts) = Inr ?d"
    by code_simp
  then have d: "dispatch_phase demo_never_starts = (Inr ?d, snd (dispatch_phase demo_never_starts))"
    by (simp add: prod_eq_iff)
  have "\<not> eligible demo_never_starts n []" "\<not> eligible demo_never_starts n [stale]" for n
    by (simp_all add: eligible_def recent_def demo_never_starts_def demo_def demo_date_def
        stale_def)
  then have never: "\<forall>n<30. \<exists>workflow_runs.
       listWorkflowRuns demo_never_starts n (the_owner ?d) (the_repo ?d)
         (workflow_id (the_workflow ?d)) (branch (the_ref ?d)) 1 = Inr workflow_runs \<and>
       \<not> eligible demo_never_starts n workflow_runs"
    by (simp add: demo_never_starts_def demo_def)
  have "branch ''refs/heads/main'' = ''main''"
    by code_simp
  with correlation_times_out [OF d never] show ?thesis
    by (simp add: deploy_def)
qed

text \<open>
  C4. The locator (lines 58 to 67) returns the earliest workflow of the list that
  matches the identifier in one of the four ways of the specification, when there
  is one. When there is none it throws an error whose message contains the
  identifier, the owner and the repo, as the template literal renders them.
\<close>

theorem locate_first_match_or_not_found:
  "((\<exists>w\<in>set workflows. spec_matches identifier w) \<longrightarrow>
      (\<exists>pre found post.
         workflows = pre @ found # post \<and> spec_matches identifier found \<and>
         (\<forall>w\<in>set pre. \<not> spec_matches identifier w) \<and>
         locate identifier owner repo workflows = Inr found)) \<and>
   ((\<forall>w\<in>set workflows. \<not> spec_matches identifier w) \<longrightarrow>
      locate identifier owner repo workflows = Inl (not_found identifier owner repo) \<and>
      sublist identifier (not_found identifier owner repo) \<and>
      sublist (template owner) (not_found identifier owner repo) \<and>
      sublist (template repo) (not_found identifier owner repo))"
proof (intro conjI impI)
  assume "\<exists>w\<in>set workflows. spec_matches identifier w"
  then have "List.find (matches identifier) workflows \<noteq> None"
    by (auto simp: find_None_iff matches_spec)
  then obtain found where f: "List.find (matches identifier) workflows = Some found"
    by blast
  from find_first [OF f] obtain pre post where
    "workflows = pre @ found # post" "matches identifier found"
    "\<forall>y\<in>set pre. \<not> matches identifier y" by blast
  moreover from f have "locate identifier owner repo workflows = Inr found"
    by (simp add: locate_def foundWorkflow_def)
  ultimately show "\<exists>pre found post.
         workflows = pre @ found # post \<and> spec_matches identifier found \<and>
         (\<forall>w\<in>set pre. \<not> spec_matches identifier w) \<and>
         locate identifier owner repo workflows = Inr found"
    unfolding matches_spec by blast
next
  assume "\<forall>w\<in>set workflows. \<not> spec_matches identifier w"
  then have "List.find (matches identifier) workflows = None"
    by (simp add: find_None_iff matches_spec)
  then show "locate identifier owner repo workflows = Inl (not_found identifier owner repo)"
    by (simp add: locate_def foundWorkflow_def)
qed (rule sublist_not_found)+

theorem locate_first_match_or_not_found_witness:
  "locate ''deploy.yml'' (Some ''octo'') (Some ''demo'') [ci, deploy, nightly] = Inr deploy \<and>
   locate ''release'' (Some ''octo'') (Some ''demo'') [ci, deploy, nightly] =
     Inl (not_found ''release'' (Some ''octo'') (Some ''demo'')) \<and>
   sublist ''release'' (not_found ''release'' (Some ''octo'') (Some ''demo'')) \<and>
   sublist ''octo'' (not_found ''release'' (Some ''octo'') (Some ''demo'')) \<and>
   sublist ''demo'' (not_found ''release'' (Some ''octo'') (Some ''demo''))"
proof -
  have m: "matches ''deploy.yml'' deploy"
    "\<not> matches ''release'' ci" "\<not> matches ''release'' deploy" "\<not> matches ''release'' nightly"
    by code_simp+
  have a: "\<exists>w\<in>set [ci, deploy, nightly]. spec_matches ''deploy.yml'' w"
    using m by (simp add: matches_spec)
  have b: "\<forall>w\<in>set [ci, deploy, nightly]. \<not> spec_matches ''release'' w"
    using m by (simp add: matches_spec)
  note first = locate_first_match_or_not_found
    [of "[ci, deploy, nightly]" "''deploy.yml''" "Some ''octo''" "Some ''demo''"]
  note none = locate_first_match_or_not_found
    [of "[ci, deploy, nightly]" "''release''" "Some ''octo''" "Some ''demo''"]
  from first a obtain found where
    l: "locate ''deploy.yml'' (Some ''octo'') (Some ''demo'') [ci, deploy, nightly] = Inr found"
    by blast
  have "locate ''deploy.yml'' (Some ''octo'') (Some ''demo'') [ci, deploy, nightly] = Inr deploy"
    by code_simp
  with l have "found = deploy" by simp
  with l none b show ?thesis by simp
qed

text \<open>
  C5, as the code has it. An error whose message ends with \<open>a disabled workflow\<close>
  makes the invocation a success with a warning logged, and the handler sets no
  output: no output is set at all when the error is thrown in the first phase,
  up to and including the dispatch request, and \<open>workflowId\<close> alone is set when it
  is thrown later. An error with any other message makes the invocation a failure
  that carries the message as it is.
\<close>

theorem handler_outcome:
  assumes "run_try env = Some (Inl message, tr)"
  shows "(endsWith message ''a disabled workflow'' \<longrightarrow>
        run env = Some (Success, tr @ [Warning ''Workflow is disabled, no action was taken'']) \<and>
        outputs (tr @ [Warning ''Workflow is disabled, no action was taken'']) = outputs tr \<and>
        (\<forall>e t. dispatch_phase env = (Inl e, t) \<longrightarrow> outputs tr = []) \<and>
        (\<forall>d t. dispatch_phase env = (Inr d, t) \<longrightarrow>
           outputs tr = [(''workflowId'', VNumber (workflow_id (the_workflow d)))])) \<and>
     (\<not> endsWith message ''a disabled workflow'' \<longrightarrow>
        run env = Some (Failure message, tr @ [SetFailed message]))"
proof (intro conjI allI impI)
  assume "endsWith message ''a disabled workflow''"
  with run_thrown [OF assms]
  show "run env = Some (Success, tr @ [Warning ''Workflow is disabled, no action was taken''])"
    by (simp add: handler_disabled)
next
  show "outputs (tr @ [Warning ''Workflow is disabled, no action was taken'']) = outputs tr"
    by (simp add: outputs_append)
next
  fix e t
  assume "dispatch_phase env = (Inl e, t)"
  from run_try_outputs_not_dispatched [OF this assms] show "outputs tr = []"
    by simp
next
  fix d t
  assume "dispatch_phase env = (Inr d, t)"
  from run_try_outputs_dispatched [OF this assms]
  show "outputs tr = [(''workflowId'', VNumber (workflow_id (the_workflow d)))]"
    by simp
next
  assume "\<not> endsWith message ''a disabled workflow''"
  with run_thrown [OF assms]
  show "run env = Some (Failure message, tr @ [SetFailed message])"
    by (simp add: handler_other)
qed

theorem handler_outcome_witness:
  "run demo_disabled_late =
     Some (Success,
       snd (dispatch_phase demo_disabled_late) @
       [waiting_to_start,
        attempt_call (Some ''octo'') (Some ''demo'') 42 ''refs/heads/main'',
        Warning ''Workflow is disabled, no action was taken'']) \<and>
   run demo_bad_json =
     Some (Failure ''Unexpected token b in JSON at position 1'',
       [banner demo_bad_json, SetFailed ''Unexpected token b in JSON at position 1''])"
proof -
  have late: "run_try demo_disabled_late =
     Some (Inl ''Cannot list the runs of a disabled workflow'',
       snd (dispatch_phase demo_disabled_late) @
       [waiting_to_start,
        attempt_call (Some ''octo'') (Some ''demo'') 42 ''refs/heads/main''])"
    by code_simp
  have e: "endsWith ''Cannot list the runs of a disabled workflow'' ''a disabled workflow''"
    by code_simp
  have bad: "run_try demo_bad_json =
     Some (Inl ''Unexpected token b in JSON at position 1'', [banner demo_bad_json])"
    by code_simp
  have n: "\<not> endsWith ''Unexpected token b in JSON at position 1'' ''a disabled workflow''"
    by code_simp
  from handler_outcome [OF late] e handler_outcome [OF bad] n show ?thesis
    by simp
qed

text \<open>
  C5, as the specification states it, fails where the error is thrown after the
  dispatch: in the example whose listing of the runs throws such an error, the
  invocation succeeds, but the output \<open>workflowId\<close> has been set.
\<close>

theorem disabled_after_dispatch_counterexample:
  "map_option fst (run_try demo_disabled_late) =
     Some (Inl ''Cannot list the runs of a disabled workflow'') \<and>
   endsWith ''Cannot list the runs of a disabled workflow'' ''a disabled workflow'' \<and>
   map_option (\<lambda>(result, tr). (result, outputs tr)) (run demo_disabled_late) =
     Some (Success, [(''workflowId'', VNumber 42)])"
proof (intro conjI)
  show "map_option fst (run_try demo_disabled_late) =
     Some (Inl ''Cannot list the runs of a disabled workflow'')"
    by code_simp
  show "endsWith ''Cannot list the runs of a disabled workflow'' ''a disabled workflow''"
    by code_simp
  show "map_option (\<lambda>(result, tr). (result, outputs tr)) (run demo_disabled_late) =
     Some (Success, [(''workflowId'', VNumber 42)])"
    by code_simp
qed

text \<open>
  C6. An inputs text that is present (not empty, line 37) and is not valid JSON
  makes the guarded region throw the parser's error before any call of the API, and
  the invocation fails with that message, provided the message does not end with
  the text that the handler takes for a disabled workflow (no message of a JSON
  syntax error does). When the text is valid JSON, every dispatch request carries
  the parsed value as its inputs, and a dispatch request is made as soon as the
  workflow is found.
\<close>

theorem inputs_decoded_before_any_call:
  assumes "input_inputs env \<noteq> []"
  shows "(\<forall>message.
        JSON_parse env (input_inputs env) = Inl message \<longrightarrow>
        run_try env = Some (Inl message, [banner env]) \<and>
        filter is_api_call [banner env] = [] \<and>
        (\<not> endsWith message ''a disabled workflow'' \<longrightarrow>
           run env = Some (Failure message, [banner env, SetFailed message]))) \<and>
     (\<forall>inputs.
        JSON_parse env (input_inputs env) = Inr inputs \<longrightarrow>
        (\<forall>r ref payload.
           Request r ref payload \<in> set (snd (dispatch_phase env)) \<longrightarrow> payload = inputs) \<and>
        (\<forall>owner repo workflows found.
           resolve_owner_repo env = (owner, repo) \<and>
           getOctokit env (input_token env) = None \<and>
           listRepoWorkflows env owner repo = Inr workflows \<and>
           locate (input_workflow env) owner repo workflows = Inr found \<longrightarrow>
           Request (route owner repo found) (resolve_ref env) inputs
             \<in> set (snd (dispatch_phase env))))"
proof (intro conjI allI impI)
  fix message
  assume "JSON_parse env (input_inputs env) = Inl message"
  with assms have "dispatch_phase env = (Inl message, [banner env])"
    by (simp add: dispatch_phase_decode_error decode_inputs_present)
  then show t: "run_try env = Some (Inl message, [banner env])"
    by (rule run_try_not_dispatched)
  show "filter is_api_call [banner env] = []"
    by (simp add: banner_def)
  assume "\<not> endsWith message ''a disabled workflow''"
  with run_thrown [OF t]
  show "run env = Some (Failure message, [banner env, SetFailed message])"
    by (simp add: handler_other)
next
  fix inputs r ref payload
  assume "JSON_parse env (input_inputs env) = Inr inputs"
    and "Request r ref payload \<in> set (snd (dispatch_phase env))"
  with assms show "payload = inputs"
    using dispatch_phase_requests [of env inputs r ref payload]
    by (simp add: decode_inputs_present)
next
  fix inputs owner repo workflows found
  assume p: "JSON_parse env (input_inputs env) = Inr inputs"
    and f: "resolve_owner_repo env = (owner, repo) \<and>
           getOctokit env (input_token env) = None \<and>
           listRepoWorkflows env owner repo = Inr workflows \<and>
           locate (input_workflow env) owner repo workflows = Inr found"
  from p assms have "decode_inputs env = Inr inputs"
    by (simp add: decode_inputs_present)
  with f have "dispatch_phase env =
     (case request env (route owner repo found) (resolve_ref env) inputs of
        Inl e \<Rightarrow> (Inl e, until_request env owner repo workflows found inputs)
      | Inr status \<Rightarrow>
          (Inr \<lparr>the_owner = owner, the_repo = repo, the_ref = resolve_ref env,
                the_workflow = found\<rparr>,
           until_request env owner repo workflows found inputs @ dispatch_ok status found))"
    by (simp add: dispatch_phase_found)
  then show "Request (route owner repo found) (resolve_ref env) inputs
             \<in> set (snd (dispatch_phase env))"
    by (simp add: until_request_def split: sum.splits)
qed

theorem inputs_decoded_before_any_call_witness:
  "run demo_bad_json =
     Some (Failure ''Unexpected token b in JSON at position 1'',
       [banner demo_bad_json, SetFailed ''Unexpected token b in JSON at position 1'']) \<and>
   Request ''POST /repos/octo/demo/actions/workflows/42/dispatches'' ''refs/heads/main'' x1_value
     \<in> set (snd (dispatch_phase demo))"
proof -
  have "input_inputs demo_bad_json \<noteq> []"
    by code_simp
  note bad = inputs_decoded_before_any_call [OF this, THEN conjunct1, rule_format,
      of "''Unexpected token b in JSON at position 1''"]
  have "JSON_parse demo_bad_json (input_inputs demo_bad_json) =
      Inl ''Unexpected token b in JSON at position 1''"
    by code_simp
  note bad = bad [OF this, THEN conjunct2, THEN conjunct2, rule_format]
  have "\<not> endsWith ''Unexpected token b in JSON at position 1'' ''a disabled workflow''"
    by code_simp
  note bad = bad [OF this]
  have "input_inputs demo \<noteq> []"
    by code_simp
  note good = inputs_decoded_before_any_call [OF this, THEN conjunct2, rule_format,
      of x1_value, THEN conjunct2, rule_format,
      of "Some ''octo''" "Some ''demo''" "[ci, deploy, nightly]" deploy]
  have p: "JSON_parse demo (input_inputs demo) = Inr x1_value"
    by code_simp
  have f: "resolve_owner_repo demo = (Some ''octo'', Some ''demo'') \<and>
      getOctokit demo (input_token demo) = None \<and>
      listRepoWorkflows demo (Some ''octo'') (Some ''demo'') = Inr [ci, deploy, nightly] \<and>
      locate (input_workflow demo) (Some ''octo'') (Some ''demo'') [ci, deploy, nightly] =
        Inr deploy"
    by code_simp
  have "route (Some ''octo'') (Some ''demo'') deploy =
      ''POST /repos/octo/demo/actions/workflows/42/dispatches''"
    by code_simp
  moreover have "resolve_ref demo = ''refs/heads/main''"
    by code_simp
  ultimately show ?thesis
    using bad good [OF p f] by simp
qed

text \<open>
  C7. The outputs of an invocation that returns are, in this order: none, when the
  first phase throws; \<open>workflowId\<close> alone, when the dispatch succeeds and a later
  phase throws; \<open>workflowId\<close>, \<open>workflow_run_id\<close>, \<open>workflow_run_status\<close> and
  \<open>workflow_run_conclusion\<close>, when the run completes. \<open>workflowId\<close> is set right
  after the dispatch request (only the log line of the response status lies
  between), and nothing is set before it.
\<close>

theorem outputs_in_order:
  assumes "run env = Some (result, tr)"
  shows "(\<forall>e t. dispatch_phase env = (Inl e, t) \<longrightarrow> outputs tr = []) \<and>
     (\<forall>d t. dispatch_phase env = (Inr d, t) \<longrightarrow>
        (\<exists>pre inputs status rest.
           tr = pre @
             [Request (route (the_owner d) (the_repo d) (the_workflow d)) (resolve_ref env) inputs,
              Info (trophy @ '' API response status: '' @ Number_toString status),
              SetOutput ''workflowId'' (VNumber (workflow_id (the_workflow d)))] @ rest \<and>
           outputs pre = []) \<and>
        (\<forall>e t'. run_try env = Some (Inl e, t') \<longrightarrow>
           outputs tr = [(''workflowId'', VNumber (workflow_id (the_workflow d)))]) \<and>
        (\<forall>u t'. run_try env = Some (Inr u, t') \<longrightarrow>
           result = Success \<and>
           (\<exists>workflowRun::Run. outputs tr =
              [(''workflowId'', VNumber (workflow_id (the_workflow d))),
               (''workflow_run_id'', VNumber (run_id workflowRun)),
               (''workflow_run_status'', VString ''completed''),
               (''workflow_run_conclusion'', nullable (run_conclusion workflowRun))])))"
proof (intro conjI allI impI)
  fix e t
  assume d: "dispatch_phase env = (Inl e, t)"
  from run_outputs [OF assms] obtain res tr' where
    r: "run_try env = Some (res, tr')" and o: "outputs tr = outputs tr'"
    by blast
  from run_try_outputs_not_dispatched [OF d r] o show "outputs tr = []"
    by simp
next
  fix d t
  assume d: "dispatch_phase env = (Inr d, t)"
  from dispatch_phase_Inr_shape [OF d] obtain pre inputs status where
    t: "t = pre @
       [Request (route (the_owner d) (the_repo d) (the_workflow d)) (resolve_ref env) inputs,
        Info (trophy @ '' API response status: '' @ Number_toString status),
        SetOutput ''workflowId'' (VNumber (workflow_id (the_workflow d)))]"
    and pre: "outputs pre = []"
    by auto
  from run_extends [OF d assms] obtain rest where "tr = t @ rest"
    unfolding prefix_def by blast
  with t have "tr = pre @
       [Request (route (the_owner d) (the_repo d) (the_workflow d)) (resolve_ref env) inputs,
        Info (trophy @ '' API response status: '' @ Number_toString status),
        SetOutput ''workflowId'' (VNumber (workflow_id (the_workflow d)))] @ rest \<and>
       outputs pre = []"
    using pre by simp
  then show "\<exists>pre inputs status rest.
           tr = pre @
             [Request (route (the_owner d) (the_repo d) (the_workflow d)) (resolve_ref env) inputs,
              Info (trophy @ '' API response status: '' @ Number_toString status),
              SetOutput ''workflowId'' (VNumber (workflow_id (the_workflow d)))] @ rest \<and>
           outputs pre = []"
    by (intro exI)
next
  fix d t e t'
  assume d: "dispatch_phase env = (Inr d, t)" and r: "run_try env = Some (Inl e, t')"
  from run_outputs [OF assms] r have "outputs tr = outputs t'"
    by auto
  with run_try_outputs_dispatched [OF d r]
  show "outputs tr = [(''workflowId'', VNumber (workflow_id (the_workflow d)))]"
    by simp
next
  fix d t u t'
  assume d: "dispatch_phase env = (Inr d, t)" and r: "run_try env = Some (Inr u, t')"
  from run_returned [OF r] assms show "result = Success"
    by simp
  from run_outputs [OF assms] r have "outputs tr = outputs t'"
    by auto
  moreover from run_try_outputs_dispatched [OF d r] have "\<exists>workflowRun.
    run_status workflowRun = ''completed'' \<and>
    outputs t' = (''workflowId'', VNumber (workflow_id (the_workflow d))) #
       outputs (report workflowRun)"
    by auto
  then obtain workflowRun where "run_status workflowRun = ''completed'' \<and>
    outputs t' = (''workflowId'', VNumber (workflow_id (the_workflow d))) #
       outputs (report workflowRun)" ..
  ultimately have o: "outputs tr =
              [(''workflowId'', VNumber (workflow_id (the_workflow d))),
               (''workflow_run_id'', VNumber (run_id workflowRun)),
               (''workflow_run_status'', VString ''completed''),
               (''workflow_run_conclusion'', nullable (run_conclusion workflowRun))]"
    by (simp add: outputs_report)
  show "\<exists>workflowRun::Run. outputs tr =
              [(''workflowId'', VNumber (workflow_id (the_workflow d))),
               (''workflow_run_id'', VNumber (run_id workflowRun)),
               (''workflow_run_status'', VString ''completed''),
               (''workflow_run_conclusion'', nullable (run_conclusion workflowRun))]"
  proof
    show "outputs tr =
              [(''workflowId'', VNumber (workflow_id (the_workflow d))),
               (''workflow_run_id'', VNumber (run_id workflowRun)),
               (''workflow_run_status'', VString ''completed''),
               (''workflow_run_conclusion'', nullable (run_conclusion workflowRun))]"
      by (rule o)
  qed
qed

theorem outputs_in_order_witness:
  "\<exists>tr (workflowRun::Run). run demo = Some (Success, tr) \<and>
     outputs tr =
       [(''workflowId'', VNumber 42),
        (''workflow_run_id'', VNumber (run_id workflowRun)),
        (''workflow_run_status'', VString ''completed''),
        (''workflow_run_conclusion'', nullable (run_conclusion workflowRun))]"
proof -
  let ?d = "\<lparr>the_owner = Some ''octo'', the_repo = Some ''demo'', the_ref = ''refs/heads/main'',
        the_workflow = deploy\<rparr>"
  have "fst (dispatch_phase demo) = Inr ?d"
    by code_simp
  then have d: "dispatch_phase demo = (Inr ?d, snd (dispatch_phase demo))"
    by (simp add: prod_eq_iff)
  have "map_option fst (run_try demo) = Some (Inr ())"
    by code_simp
  then obtain t' where t: "run_try demo = Some (Inr (), t')"
    by (cases "run_try demo") auto
  then have r: "run demo = Some (Success, t')"
    by (rule run_returned)
  from outputs_in_order [OF r, THEN conjunct2, rule_format, OF d,
      THEN conjunct2, THEN conjunct2, rule_format, OF t, THEN conjunct2]
  obtain workflowRun :: Run where "outputs t' =
       [(''workflowId'', VNumber (workflow_id (the_workflow ?d))),
        (''workflow_run_id'', VNumber (run_id workflowRun)),
        (''workflow_run_status'', VString ''completed''),
        (''workflow_run_conclusion'', nullable (run_conclusion workflowRun))]" ..
  moreover have "workflow_id (the_workflow ?d) = 42"
    by (simp add: deploy_def)
  ultimately have o: "run demo = Some (Success, t') \<and> outputs t' =
       [(''workflowId'', VNumber 42),
        (''workflow_run_id'', VNumber (run_id workflowRun)),
        (''workflow_run_status'', VString ''completed''),
        (''workflow_run_conclusion'', nullable (run_conclusion workflowRun))]"
    using r by simp
  show ?thesis
  proof (intro exI)
    show "run demo = Some (Success, t') \<and> outputs t' =
       [(''workflowId'', VNumber 42),
        (''workflow_run_id'', VNumber (run_id workflowRun)),
        (''workflow_run_status'', VString ''completed''),
        (''workflow_run_conclusion'', nullable (run_conclusion workflowRun))]"
      by (rule o)
  qed
qed

text \<open>
  C8. Each attempt of the correlator lists the runs of the resolved workflow id with
  page size 1 (\<open>waitForStart_calls\<close>), and the branch it passes is the name behind
  a leading \<open>refs/heads/\<close> (\<open>branch_of_heads_ref\<close>). But a ref without that prefix is
  not always passed as it is: the first occurrence of \<open>refs/heads/\<close> is removed
  wherever it stands. For the ref \<open>release/refs/heads/v1\<close>, which does not start
  with \<open>refs/heads/\<close>, the three attempts of the example ask for the branch
  \<open>release/v1\<close>.
\<close>

theorem branch_removes_inner_occurrence:
  "\<not> prefix ''refs/heads/'' ''release/refs/heads/v1'' \<and>
   branch ''release/refs/heads/v1'' = ''release/v1'' \<and>
   map_option (\<lambda>(result, tr). filter is_api_call tr) (run demo_release) =
     Some [ListRepoWorkflows (Some ''octo'') (Some ''demo''),
           Request ''POST /repos/octo/demo/actions/workflows/42/dispatches''
             ''release/refs/heads/v1'' x1_value,
           ListWorkflowRuns (Some ''octo'') (Some ''demo'') 42 ''release/v1'' 1,
           ListWorkflowRuns (Some ''octo'') (Some ''demo'') 42 ''release/v1'' 1,
           ListWorkflowRuns (Some ''octo'') (Some ''demo'') 42 ''release/v1'' 1,
           GetWorkflowRun (Some ''octo'') (Some ''demo'') 901,
           GetWorkflowRun (Some ''octo'') (Some ''demo'') 901]"
proof (intro conjI)
  show "\<not> prefix ''refs/heads/'' ''release/refs/heads/v1''"
    by simp
  show "branch ''release/refs/heads/v1'' = ''release/v1''"
    by (simp add: branch_def)
  show "map_option (\<lambda>(result, tr). filter is_api_call tr) (run demo_release) =
     Some [ListRepoWorkflows (Some ''octo'') (Some ''demo''),
           Request ''POST /repos/octo/demo/actions/workflows/42/dispatches''
             ''release/refs/heads/v1'' x1_value,
           ListWorkflowRuns (Some ''octo'') (Some ''demo'') 42 ''release/v1'' 1,
           ListWorkflowRuns (Some ''octo'') (Some ''demo'') 42 ''release/v1'' 1,
           ListWorkflowRuns (Some ''octo'') (Some ''demo'') 42 ''release/v1'' 1,
           GetWorkflowRun (Some ''octo'') (Some ''demo'') 901,
           GetWorkflowRun (Some ''octo'') (Some ''demo'') 901]"
    by code_simp
qed

text \<open>
  C9. When the run found by the correlator is already completed, the invocation
  makes no call of \<open>getWorkflowRun\<close> at all, and the three outputs of the run are
  those of the run as the listing call returned it.
\<close>

theorem completed_at_correlation:
  assumes "dispatch_phase env = (Inr d, tr1)"
    and "waitForStart env (the_owner d) (the_repo d) (workflow_id (the_workflow d)) (the_ref d) 0
           (tr1 @ [waiting_to_start]) = (Inr (Some correlated), tr2)"
    and "run_status correlated = ''completed''"
  shows "run env = Some (Success, tr2 @ waiting_to_complete # report correlated) \<and>
     filter is_GetWorkflowRun (tr2 @ waiting_to_complete # report correlated) = [] \<and>
     outputs (report correlated) =
       [(''workflow_run_id'', VNumber (run_id correlated)),
        (''workflow_run_status'', VString (run_status correlated)),
        (''workflow_run_conclusion'', nullable (run_conclusion correlated))]"
proof -
  have "waitForCompletion env (the_owner d) (the_repo d) 0 correlated
      (tr2 @ [waiting_to_complete]) = Some (Inr correlated, tr2 @ [waiting_to_complete])"
    using assms(3) by (rule waitForCompletion_done)
  with run_try_started [OF assms(1,2)]
  have "run_try env = Some (Inr (), tr2 @ waiting_to_complete # report correlated)"
    by simp
  then have "run env = Some (Success, tr2 @ waiting_to_complete # report correlated)"
    by (rule run_returned)
  moreover from waitForStart_trace [OF assms(2)] obtain added where
    "tr2 = (tr1 @ [waiting_to_start]) @ added" "filter is_GetWorkflowRun added = []"
    by blast
  with dispatch_phase_Inr_outputs(2) [OF assms(1)]
  have "filter is_GetWorkflowRun (tr2 @ waiting_to_complete # report correlated) = []"
    by (simp add: waiting_to_start_def waiting_to_complete_def outputs_report)
  moreover have "outputs (report correlated) =
       [(''workflow_run_id'', VNumber (run_id correlated)),
        (''workflow_run_status'', VString (run_status correlated)),
        (''workflow_run_conclusion'', nullable (run_conclusion correlated))]"
    by (simp add: outputs_report)
  ultimately show ?thesis
    by simp
qed

theorem completed_at_correlation_witness:
  "run demo_finished =
     Some (Success,
       snd (dispatch_phase demo_finished) @
       [waiting_to_start,
        attempt_call (Some ''octo'') (Some ''demo'') 42 ''refs/heads/main'',
        started completed,
        waiting_to_complete] @
       report completed) \<and>
   outputs (report completed) =
     [(''workflow_run_id'', VNumber 901),
      (''workflow_run_status'', VString ''completed''),
      (''workflow_run_conclusion'', VString ''success'')]"
proof -
  let ?d = "\<lparr>the_owner = Some ''octo'', the_repo = Some ''demo'', the_ref = ''refs/heads/main'',
        the_workflow = deploy\<rparr>"
  have "fst (dispatch_phase demo_finished) = Inr ?d"
    by code_simp
  then have d: "dispatch_phase demo_finished = (Inr ?d, snd (dispatch_phase demo_finished))"
    by (simp add: prod_eq_iff)
  have "recent demo_finished 0 completed"
    by code_simp
  moreover have "listWorkflowRuns demo_finished 0 (Some ''octo'') (Some ''demo'') 42
      (branch ''refs/heads/main'') 1 = Inr [completed]"
    by (simp add: demo_finished_def)
  ultimately have "waitForStart demo_finished (Some ''octo'') (Some ''demo'') 42
      ''refs/heads/main'' 0 (snd (dispatch_phase demo_finished) @ [waiting_to_start]) =
     (Inr (Some completed),
      (snd (dispatch_phase demo_finished) @ [waiting_to_start]) @
      [attempt_call (Some ''octo'') (Some ''demo'') 42 ''refs/heads/main'', started completed])"
    by (intro waitForStart_found) (simp_all add: maxAttempts_def)
  then have w: "waitForStart demo_finished (the_owner ?d) (the_repo ?d)
      (workflow_id (the_workflow ?d)) (the_ref ?d) 0
      (snd (dispatch_phase demo_finished) @ [waiting_to_start]) =
     (Inr (Some completed),
      (snd (dispatch_phase demo_finished) @ [waiting_to_start]) @
      [attempt_call (Some ''octo'') (Some ''demo'') 42 ''refs/heads/main'', started completed])"
    by (simp add: deploy_def)
  have c: "run_status completed = ''completed''"
    by (simp add: completed_def)
  have "run_id completed = 901" "run_conclusion completed = Some ''success''"
    by (simp_all add: completed_def queued_def)
  with completed_at_correlation [OF d w c] c show ?thesis
    by simp
qed

text \<open>
  C10. A repo input without a slash is taken whole as the owner and leaves the repo
  undefined; nothing is thrown for it. When the inputs are decoded and the client
  is made, the first call is the listing of the workflows with those values.
\<close>

theorem repo_without_slash:
  assumes "input_repo env \<noteq> []" and "CHR ''/'' \<notin> set (input_repo env)"
    and "decode_inputs env = Inr inputs"
    and "getOctokit env (input_token env) = None"
  shows "resolve_owner_repo env = (Some (input_repo env), None) \<and>
     (\<exists>res rest. dispatch_phase env =
        (res, banner env # ListRepoWorkflows (Some (input_repo env)) None # rest))"
  using resolve_without_slash [OF assms(1,2)]
    dispatch_phase_listing [OF resolve_without_slash [OF assms(1,2)] assms(3,4)]
  by simp

theorem repo_without_slash_witness:
  "resolve_owner_repo demo_without_slash = (Some ''octo'', None) \<and>
   (\<exists>res rest. dispatch_phase demo_without_slash =
      (res, banner demo_without_slash # ListRepoWorkflows (Some ''octo'') None # rest))"
proof -
  have "input_repo demo_without_slash = ''octo''"
    by (simp add: demo_without_slash_def)
  moreover have "decode_inputs demo_without_slash = Inr x1_value"
    by code_simp
  moreover have "getOctokit demo_without_slash (input_token demo_without_slash) = None"
    by code_simp
  ultimately show ?thesis
    using repo_without_slash [of demo_without_slash x1_value] by simp
qed

end
